theory Spec2Isabelle
  imports Main "HOL-Library.Word" "HOL-Library.Signed_Division"
begin

section \<open>The iambic keyer of iambic.c\<close>

text \<open>
  A shallow embedding of \<^verbatim>\<open>iambic.c\<close>. A C \<^verbatim>\<open>int\<close> is a 32-bit word: \<open>+\<close> and
  \<open>*\<close> wrap around (what gcc's code does where C leaves signed overflow undefined),
  \<open>sint\<close> reads the signed value. The flags that the code only ever assigns 0 or 1
  and only tests for truth (\<^verbatim>\<open>dot_memory\<close>, \<^verbatim>\<open>dash_memory\<close>, \<^verbatim>\<open>kcwl\<close>, \<^verbatim>\<open>kcwr\<close>,
  \<^verbatim>\<open>keyer_out\<close>, \<^verbatim>\<open>running\<close>) are booleans.
\<close>

type_synonym cint = "32 word"

unbundle bit_operations_syntax

subsection \<open>Constants and globals\<close>

definition LEFT_PADDLE_GPIO :: cint where "LEFT_PADDLE_GPIO = 13"
definition RIGHT_PADDLE_GPIO :: cint where "RIGHT_PADDLE_GPIO = 15"

definition KEYER_STRAIGHT :: cint where "KEYER_STRAIGHT = 0"
definition KEYER_MODE_A :: cint where "KEYER_MODE_A = 1"
definition KEYER_MODE_B :: cint where "KEYER_MODE_B = 2"

datatype kstate =
  CHECK | PREDOT | PREDASH | SENDDOT | SENDDASH | DOTDELAY | DASHDELAY
  | DOTHELD | DASHHELD | LETTERSPACE | EXITLOOP

text \<open>
  The globals that only \<^verbatim>\<open>main\<close> and \<^verbatim>\<open>keyer_update\<close> write: the settings, and
  the two periods derived from them.
\<close>

record config =
  cw_keyer_speed :: cint
  cw_keyer_weight :: cint
  cw_keys_reversed :: cint
  cw_keyer_mode :: cint
  cw_keyer_sidetone_frequency :: cint
  cw_keyer_spacing :: cint
  dot_delay :: cint
  dash_delay :: cint

text \<open>The initialisers of the globals.\<close>

definition init_config :: config where
  "init_config = \<lparr>cw_keyer_speed = 20, cw_keyer_weight = 50, cw_keys_reversed = 0,
     cw_keyer_mode = 1, cw_keyer_sidetone_frequency = 800, cw_keyer_spacing = 0,
     dot_delay = 0, dash_delay = 0\<rparr>"

text \<open>The two paddle contacts, written by \<^verbatim>\<open>keyer_event\<close>.\<close>

record paddles =
  kcwl :: bool
  kcwr :: bool

text \<open>
  The globals that the keyer thread writes, with the two things \<^verbatim>\<open>set_keyer_out\<close>
  drives: the level of the key line and the frequency of the side tone.
\<close>

record keyer =
  key_state :: kstate
  kdelay :: cint
  dot_memory :: bool
  dash_memory :: bool
  keyer_out :: bool
  gpio_out :: bool
  tone_out :: cint

definition init_keyer :: keyer where
  "init_keyer = \<lparr>key_state = CHECK, kdelay = 0, dot_memory = False, dash_memory = False,
     keyer_out = False, gpio_out = False, tone_out = 0\<rparr>"

subsection \<open>keyer\_update\<close>

text \<open>
  C's \<^verbatim>\<open>/\<close> on \<^verbatim>\<open>int\<close> truncates towards zero: \<open>sdiv\<close> on the signed values. A
  zero divisor traps, which is \<open>None\<close> in \<open>keyer_update\<close>.
\<close>

definition c_div :: "cint \<Rightarrow> cint \<Rightarrow> cint" where
  "c_div a b = word_of_int (sint a sdiv sint b)"

definition keyer_update :: "config \<Rightarrow> config option" where
  "keyer_update c =
     (if cw_keyer_speed c = 0 then None
      else let d = c_div 1200 (cw_keyer_speed c)
           in Some (c\<lparr>dot_delay := d, dash_delay := c_div (d * 3 * cw_keyer_weight c) 50\<rparr>))"

text \<open>
  \<^verbatim>\<open>keyer_update\<close> also points \<^verbatim>\<open>kdot\<close> and \<^verbatim>\<open>kdash\<close> at \<^verbatim>\<open>kcwl\<close> and \<^verbatim>\<open>kcwr\<close>, or
  the other way round when \<^verbatim>\<open>cw_keys_reversed\<close> is set; nothing writes that flag
  afterwards, so \<^verbatim>\<open>*kdot\<close> and \<^verbatim>\<open>*kdash\<close> are these two reads.
\<close>

definition kdot :: "config \<Rightarrow> paddles \<Rightarrow> bool" where
  "kdot c p = (if cw_keys_reversed c \<noteq> 0 then kcwr p else kcwl p)"

definition kdash :: "config \<Rightarrow> paddles \<Rightarrow> bool" where
  "kdash c p = (if cw_keys_reversed c \<noteq> 0 then kcwl p else kcwr p)"

subsection \<open>keyer\_event\<close>

text \<open>
  The paddle callback: the new contacts, and whether it posts the semaphore that
  wakes the keyer thread.
\<close>

definition keyer_event :: "config \<Rightarrow> cint \<Rightarrow> cint \<Rightarrow> paddles \<Rightarrow> paddles \<times> bool" where
  "keyer_event c gpio level p =
     (let state = (level = 0);
          p' = (if gpio = LEFT_PADDLE_GPIO then p\<lparr>kcwl := state\<rparr> else p\<lparr>kcwr := state\<rparr>)
      in (p', state \<or> cw_keyer_mode c = KEYER_STRAIGHT))"

subsection \<open>clear\_memory and set\_keyer\_out\<close>

definition clear_memory :: "keyer \<Rightarrow> keyer" where
  "clear_memory s = s\<lparr>dot_memory := False, dash_memory := False\<rparr>"

definition set_keyer_out :: "config \<Rightarrow> bool \<Rightarrow> keyer \<Rightarrow> keyer" where
  "set_keyer_out c state s =
     (if keyer_out s \<noteq> state
      then s\<lparr>keyer_out := state, gpio_out := state,
             tone_out := (if state then cw_keyer_sidetone_frequency c else 0)\<rparr>
      else s)"

subsection \<open>One pass of the switch in keyer\_thread\<close>

text \<open>
  One evaluation of the \<^verbatim>\<open>switch\<close>, on the paddle contacts read in that pass. The
  \<^verbatim>\<open>else\<close> after the Mode A test of SENDDOT and SENDDASH belongs to the inner
  \<^verbatim>\<open>if\<close>, as C parses it. \<^verbatim>\<open>!*kdot & !*kdash\<close> is the bitwise and of two values
  that are 0 or 1.
\<close>

definition step :: "config \<Rightarrow> paddles \<Rightarrow> keyer \<Rightarrow> keyer" where
  "step c p s =
    (case key_state s of
       CHECK \<Rightarrow>
         if cw_keyer_mode c = KEYER_STRAIGHT then
           if kdash c p then (set_keyer_out c True s)\<lparr>key_state := EXITLOOP\<rparr>
           else if kdot c p then s\<lparr>key_state := PREDOT\<rparr>
           else (set_keyer_out c False s)\<lparr>key_state := EXITLOOP\<rparr>
         else
           if kdot c p then s\<lparr>key_state := PREDOT\<rparr>
           else if kdash c p then s\<lparr>key_state := PREDASH\<rparr>
           else (set_keyer_out c False s)\<lparr>key_state := EXITLOOP\<rparr>
     | PREDOT \<Rightarrow> (clear_memory s)\<lparr>key_state := SENDDOT\<rparr>
     | PREDASH \<Rightarrow> (clear_memory s)\<lparr>key_state := SENDDASH\<rparr>
     | SENDDOT \<Rightarrow>
         let s1 = set_keyer_out c True s;
             s2 = (if kdelay s1 = dot_delay c
                   then (set_keyer_out c False (s1\<lparr>kdelay := 0\<rparr>))\<lparr>key_state := DOTDELAY\<rparr>
                   else s1\<lparr>kdelay := kdelay s1 + 1\<rparr>)
         in if cw_keyer_mode c = KEYER_MODE_A then
              if \<not> kdot c p \<and> \<not> kdash c p then s2\<lparr>dash_memory := False\<rparr>
              else if kdash c p then s2\<lparr>dash_memory := True\<rparr>
              else s2
            else s2
     | SENDDASH \<Rightarrow>
         let s1 = set_keyer_out c True s;
             s2 = (if kdelay s1 = dash_delay c
                   then (set_keyer_out c False (s1\<lparr>kdelay := 0\<rparr>))\<lparr>key_state := DASHDELAY\<rparr>
                   else s1\<lparr>kdelay := kdelay s1 + 1\<rparr>)
         in if cw_keyer_mode c = KEYER_MODE_A then
              if \<not> kdot c p \<and> \<not> kdash c p then s2\<lparr>dot_memory := False\<rparr>
              else if kdot c p then s2\<lparr>dot_memory := True\<rparr>
              else s2
            else s2
     | DOTDELAY \<Rightarrow>
         let s1 = (if kdelay s = dot_delay c then
                     let s0 = s\<lparr>kdelay := 0\<rparr>
                     in if \<not> kdot c p \<and> cw_keyer_mode c = KEYER_STRAIGHT
                        then s0\<lparr>key_state := EXITLOOP\<rparr>
                        else if dash_memory s0 then s0\<lparr>key_state := PREDASH\<rparr>
                        else s0\<lparr>key_state := DOTHELD\<rparr>
                   else s\<lparr>kdelay := kdelay s + 1\<rparr>)
         in if kdash c p then s1\<lparr>dash_memory := True\<rparr> else s1
     | DASHDELAY \<Rightarrow>
         let s1 = (if kdelay s = dot_delay c then
                     let s0 = s\<lparr>kdelay := 0\<rparr>
                     in if dot_memory s0 then s0\<lparr>key_state := PREDOT\<rparr>
                        else s0\<lparr>key_state := DASHHELD\<rparr>
                   else s\<lparr>kdelay := kdelay s + 1\<rparr>)
         in if kdot c p then s1\<lparr>dot_memory := True\<rparr> else s1
     | DOTHELD \<Rightarrow>
         if kdot c p then s\<lparr>key_state := PREDOT\<rparr>
         else if kdash c p then s\<lparr>key_state := PREDASH\<rparr>
         else if cw_keyer_spacing c \<noteq> 0 then (clear_memory s)\<lparr>key_state := LETTERSPACE\<rparr>
         else s\<lparr>key_state := EXITLOOP\<rparr>
     | DASHHELD \<Rightarrow>
         if kdash c p then s\<lparr>key_state := PREDASH\<rparr>
         else if kdot c p then s\<lparr>key_state := PREDOT\<rparr>
         else if cw_keyer_spacing c \<noteq> 0 then (clear_memory s)\<lparr>key_state := LETTERSPACE\<rparr>
         else s\<lparr>key_state := EXITLOOP\<rparr>
     | LETTERSPACE \<Rightarrow>
         let s1 = (if kdelay s = 2 * dot_delay c then
                     let s0 = s\<lparr>kdelay := 0\<rparr>
                     in if dot_memory s0 then s0\<lparr>key_state := PREDOT\<rparr>
                        else if dash_memory s0 then s0\<lparr>key_state := PREDASH\<rparr>
                        else s0\<lparr>key_state := EXITLOOP\<rparr>
                   else s\<lparr>kdelay := kdelay s + 1\<rparr>);
             s2 = (if kdot c p then s1\<lparr>dot_memory := True\<rparr> else s1)
         in if kdash c p then s2\<lparr>dash_memory := True\<rparr> else s2
     | EXITLOOP \<Rightarrow> s\<lparr>key_state := EXITLOOP\<rparr>)"

text \<open>
  The inner loop \<^verbatim>\<open>while (key_state != EXITLOOP)\<close>, one pass per tick, on the paddle
  contacts of each tick; the list of contacts is as long as the time observed.
\<close>

fun keyer_loop :: "config \<Rightarrow> paddles list \<Rightarrow> keyer \<Rightarrow> keyer" where
  "keyer_loop c [] s = s"
| "keyer_loop c (p # ps) s =
     (if key_state s = EXITLOOP then s else keyer_loop c ps (step c p s))"

text \<open>The loop for \<open>n\<close> ticks with the paddles held as they are.\<close>

definition run :: "config \<Rightarrow> paddles \<Rightarrow> nat \<Rightarrow> keyer \<Rightarrow> keyer" where
  "run c p n s = keyer_loop c (replicate n p) s"

text \<open>The body of the outer loop after \<^verbatim>\<open>sem_wait\<close> returns.\<close>

definition wake :: "config \<Rightarrow> paddles list \<Rightarrow> keyer \<Rightarrow> keyer" where
  "wake c ps s = keyer_loop c ps (s\<lparr>key_state := CHECK\<rparr>)"


section \<open>The course of a squeeze\<close>

text \<open>
  The squeeze-keying property in its own words: the output alternates a dot, a gap
  of one dot period, a dash and a gap of one dot period. \<open>claimed_squeeze_out c k\<close>
  is the output it expects \<open>k\<close> ticks after the first dot was asserted, with \<open>d\<close>
  the dot period and \<open>D\<close> the dash period in ticks.
\<close>

definition claimed_squeeze_out :: "config \<Rightarrow> nat \<Rightarrow> bool" where
  "claimed_squeeze_out c k =
     (let d = unat (dot_delay c); D = unat (dash_delay c); r = k mod (3 * d + D)
      in r < d \<or> 2 * d \<le> r \<and> r < 2 * d + D)"

text \<open>
  The course that the property has once the gaps are counted as the switch makes
  them, as a function of the number \<open>r\<close> of ticks since SENDDOT was entered: the
  state, the output and the tick counter. SENDDOT takes \<open>d + 1\<close> passes of the
  switch (the counter runs from 0 to \<open>d\<close>), DOTDELAY \<open>d + 1\<close>, PREDASH one,
  SENDDASH \<open>D + 1\<close>, DASHDELAY \<open>d + 1\<close> and PREDOT one; then SENDDOT is entered
  again.
\<close>

definition squeeze_period :: "config \<Rightarrow> nat" where
  "squeeze_period c = 3 * unat (dot_delay c) + unat (dash_delay c) + 6"

definition squeeze_state :: "config \<Rightarrow> nat \<Rightarrow> kstate" where
  "squeeze_state c r =
     (let d = unat (dot_delay c); D = unat (dash_delay c)
      in if r \<le> d then SENDDOT
         else if r \<le> 2 * d + 1 then DOTDELAY
         else if r = 2 * d + 2 then PREDASH
         else if r \<le> 2 * d + 3 + D then SENDDASH
         else if r \<le> 3 * d + 4 + D then DASHDELAY
         else PREDOT)"

text \<open>
  The output is asserted by the first pass of SENDDOT or SENDDASH and de-asserted
  by the last one: it is read as asserted after \<open>d\<close> ticks in a row for a dot and
  \<open>D\<close> for a dash, and as de-asserted after the \<open>d + 3\<close> ticks between them: the
  last pass of the element, the \<open>d + 1\<close> passes of the delay state and the pass of
  PREDASH or PREDOT.
\<close>

definition squeeze_out :: "config \<Rightarrow> nat \<Rightarrow> bool" where
  "squeeze_out c r =
     (let d = unat (dot_delay c); D = unat (dash_delay c)
      in 1 \<le> r \<and> r \<le> d \<or> 2 * d + 4 \<le> r \<and> r \<le> 2 * d + 3 + D)"

definition squeeze_kdelay :: "config \<Rightarrow> nat \<Rightarrow> nat" where
  "squeeze_kdelay c r =
     (let d = unat (dot_delay c); D = unat (dash_delay c)
      in if r \<le> d then r
         else if r \<le> 2 * d + 1 then r - (d + 1)
         else if r = 2 * d + 2 then 0
         else if r \<le> 2 * d + 3 + D then r - (2 * d + 3)
         else if r \<le> 3 * d + 4 + D then r - (2 * d + 4 + D)
         else 0)"

text \<open>
  The keyer state \<open>t\<close> is at offset \<open>r\<close> of the squeeze: as above, with
  \<^verbatim>\<open>dash_memory\<close> set from the first pass of DOTDELAY until PREDASH, and
  \<^verbatim>\<open>dot_memory\<close> set from the first pass of DASHDELAY until PREDOT.
\<close>

definition sq_match :: "config \<Rightarrow> nat \<Rightarrow> keyer \<Rightarrow> bool" where
  "sq_match c r t \<longleftrightarrow>
     key_state t = squeeze_state c r \<and> kdelay t = of_nat (squeeze_kdelay c r) \<and>
     keyer_out t = squeeze_out c r \<and>
     (unat (dot_delay c) + 2 \<le> r \<and> r \<le> 2 * unat (dot_delay c) + 2 \<longrightarrow> dash_memory t) \<and>
     (2 * unat (dot_delay c) + unat (dash_delay c) + 5 \<le> r \<longrightarrow> dot_memory t)"

section \<open>The course of the automatic dots\<close>

text \<open>
  The bug-mode property in its own words: dots of one dot period separated by gaps
  of one dot period. \<open>claimed_bug_out c k\<close> is the output it expects \<open>k\<close> ticks after
  the first dot was asserted.
\<close>

definition claimed_bug_out :: "config \<Rightarrow> nat \<Rightarrow> bool" where
  "claimed_bug_out c k = (k mod (2 * unat (dot_delay c)) < unat (dot_delay c))"

text \<open>
  The course that the property has once the gaps are counted as the switch makes
  them, as a function of the number \<open>r\<close> of ticks since SENDDOT was entered: SENDDOT
  takes \<open>d + 1\<close> passes of the switch, DOTDELAY \<open>d + 1\<close>, DOTHELD one and PREDOT one;
  then SENDDOT is entered again. The output is read as asserted after \<open>d\<close> ticks in
  a row and as de-asserted after the \<open>d + 4\<close> ticks that follow.
\<close>

definition bug_period :: "config \<Rightarrow> nat" where
  "bug_period c = 2 * unat (dot_delay c) + 4"

definition bug_state :: "config \<Rightarrow> nat \<Rightarrow> kstate" where
  "bug_state c r =
     (let d = unat (dot_delay c)
      in if r \<le> d then SENDDOT
         else if r \<le> 2 * d + 1 then DOTDELAY
         else if r = 2 * d + 2 then DOTHELD
         else PREDOT)"

definition bug_out :: "config \<Rightarrow> nat \<Rightarrow> bool" where
  "bug_out c r = (1 \<le> r \<and> r \<le> unat (dot_delay c))"

definition bug_kdelay :: "config \<Rightarrow> nat \<Rightarrow> nat" where
  "bug_kdelay c r =
     (let d = unat (dot_delay c)
      in if r \<le> d then r else if r \<le> 2 * d + 1 then r - (d + 1) else 0)"

definition bug_match :: "config \<Rightarrow> nat \<Rightarrow> keyer \<Rightarrow> bool" where
  "bug_match c r t \<longleftrightarrow>
     key_state t = bug_state c r \<and> kdelay t = of_nat (bug_kdelay c r) \<and>
     keyer_out t = bug_out c r \<and> (r \<le> 2 * unat (dot_delay c) + 1 \<longrightarrow> \<not> dash_memory t)"

section \<open>The course of a letter space\<close>

text \<open>
  What follows the last element of a character when letter spacing is on and the
  paddles stay released, as a function of the number \<open>k\<close> of ticks since the
  output was de-asserted: the delay state that follows the element (\<open>first\<close>),
  then DOTHELD or DASHHELD, then LETTERSPACE, then EXITLOOP.
\<close>

definition held_state :: "kstate \<Rightarrow> kstate" where
  "held_state k = (if k = DOTDELAY then DOTHELD else DASHHELD)"

definition space_state :: "config \<Rightarrow> kstate \<Rightarrow> nat \<Rightarrow> kstate" where
  "space_state c first k =
     (let d = unat (dot_delay c)
      in if k \<le> d then first
         else if k = d + 1 then held_state first
         else if k \<le> 3 * d + 2 then LETTERSPACE
         else EXITLOOP)"

definition space_kdelay :: "config \<Rightarrow> nat \<Rightarrow> nat" where
  "space_kdelay c k =
     (let d = unat (dot_delay c)
      in if k \<le> d then k
         else if k = d + 1 then 0
         else if k \<le> 3 * d + 2 then k - (d + 2)
         else 0)"

definition space_match :: "config \<Rightarrow> kstate \<Rightarrow> nat \<Rightarrow> keyer \<Rightarrow> bool" where
  "space_match c first k t \<longleftrightarrow>
     key_state t = space_state c first k \<and> kdelay t = of_nat (space_kdelay c k) \<and>
     \<not> keyer_out t \<and> \<not> dot_memory t \<and> \<not> dash_memory t"

section \<open>The keyer thread\<close>

text \<open>
  The thread blocks in \<^verbatim>\<open>sem_wait\<close> until the semaphore is posted, sets
  \<^verbatim>\<open>key_state\<close> to CHECK and runs the inner loop until EXITLOOP. What happens to
  it is a tick, with the paddle contacts read in that pass of the switch, or a
  wake-up. A tick does nothing while the thread waits in EXITLOOP; a post that
  comes while the inner loop runs is consumed when the loop has ended, which is a
  wake-up later in the list. In the initial state \<^verbatim>\<open>key_state\<close> is CHECK already,
  so the first wake-up leaves the state as it is.
\<close>

datatype event = Tick paddles | Wake

fun thread_event :: "config \<Rightarrow> keyer \<Rightarrow> event \<Rightarrow> keyer" where
  "thread_event c s (Tick p) = (if key_state s = EXITLOOP then s else step c p s)"
| "thread_event c s Wake = (if key_state s = EXITLOOP then s\<lparr>key_state := CHECK\<rparr> else s)"

definition keyer_thread :: "config \<Rightarrow> event list \<Rightarrow> keyer \<Rightarrow> keyer" where
  "keyer_thread c es s = foldl (thread_event c) s es"

text \<open>The tick counter is off zero in the five states that count only.\<close>

definition counting :: "keyer \<Rightarrow> bool" where
  "counting s \<longleftrightarrow> kdelay s = 0 \<or> key_state s = SENDDOT \<or> key_state s = SENDDASH \<or>
     key_state s = DOTDELAY \<or> key_state s = DASHDELAY \<or> key_state s = LETTERSPACE"

section \<open>Start-up and shutdown\<close>

subsection \<open>atoi\<close>

text \<open>
  The C library's \<^verbatim>\<open>atoi\<close> is \<^verbatim>\<open>(int) strtol(nptr, NULL, 10)\<close>: it skips white
  space, takes a sign and the decimal digits that follow, and gives 0 when there
  are none. \<^verbatim>\<open>strtol\<close> stops at \<^verbatim>\<open>LONG_MAX\<close> and \<^verbatim>\<open>LONG_MIN\<close>, of a 64-bit
  \<^verbatim>\<open>long\<close>, and the cast keeps the low 32 bits.
\<close>

definition isspace :: "char \<Rightarrow> bool" where
  "isspace ch \<longleftrightarrow> ch = CHR '' '' \<or> (9 \<le> (of_char ch :: nat) \<and> (of_char ch :: nat) \<le> 13)"

definition isdigit :: "char \<Rightarrow> bool" where
  "isdigit ch \<longleftrightarrow> 48 \<le> (of_char ch :: nat) \<and> (of_char ch :: nat) \<le> 57"

fun digits :: "int \<Rightarrow> string \<Rightarrow> int" where
  "digits acc [] = acc"
| "digits acc (ch # cs) =
     (if isdigit ch then digits (10 * acc + (int (of_char ch) - 48)) cs else acc)"

definition LONG_MAX :: int where "LONG_MAX = 2 ^ 63 - 1"
definition LONG_MIN :: int where "LONG_MIN = - (2 ^ 63)"

definition strtol :: "string \<Rightarrow> int" where
  "strtol str =
     (case dropWhile isspace str of
        [] \<Rightarrow> 0
      | ch # cs \<Rightarrow>
          if ch = CHR ''-'' then max LONG_MIN (- digits 0 cs)
          else if ch = CHR ''+'' then min LONG_MAX (digits 0 cs)
          else min LONG_MAX (digits 0 (ch # cs)))"

definition atoi :: "string \<Rightarrow> cint" where
  "atoi str = word_of_int (strtol str)"

subsection \<open>The options of main\<close>

text \<open>
  The \<^verbatim>\<open>for\<close> loop over \<^verbatim>\<open>argv[1]\<close> and the arguments after it. \<open>char_at a i\<close>
  is the character \<^verbatim>\<open>a[i]\<close> of a C string, the NUL that ends it after the last
  one. An option is told by its second character and is followed by its
  value, read with \<^verbatim>\<open>atoi\<close>; with no argument left, \<^verbatim>\<open>argv[++i]\<close> is the null
  pointer that ends \<^verbatim>\<open>argv\<close> (\<open>Null_arg\<close>). Any other letter prints the usage
  (\<open>Usage\<close>). The first argument that does not start with \<^verbatim>\<open>-\<close> ends the loop.
\<close>

datatype parsed = Usage | Null_arg | Parsed config "string list"

definition set_option :: "char \<Rightarrow> cint \<Rightarrow> config \<Rightarrow> config" where
  "set_option letter v c =
     (if letter = CHR ''c'' then c\<lparr>cw_keyer_spacing := v\<rparr>
      else if letter = CHR ''f'' then c\<lparr>cw_keyer_sidetone_frequency := v\<rparr>
      else if letter = CHR ''m'' then c\<lparr>cw_keyer_mode := v\<rparr>
      else if letter = CHR ''s'' then c\<lparr>cw_keyer_speed := v\<rparr>
      else c\<lparr>cw_keyer_weight := v\<rparr>)"

definition char_at :: "string \<Rightarrow> nat \<Rightarrow> char" where
  "char_at a i = (if i < length a then a ! i else CHR 0x00)"

text \<open>
  An argument that the loop takes for an option, and one whose letter the
  \<^verbatim>\<open>switch\<close> knows. They name the two tests of \<open>parse_args\<close> below, for the
  statements about it.
\<close>

definition is_option :: "string \<Rightarrow> bool" where
  "is_option a \<longleftrightarrow> char_at a 0 = CHR ''-''"

definition known_letter :: "string \<Rightarrow> bool" where
  "known_letter a \<longleftrightarrow> char_at a 1 \<in> set ''cfmsw''"

fun parse_args :: "config \<Rightarrow> string list \<Rightarrow> parsed" where
  "parse_args c [] = Parsed c []"
| "parse_args c [a] =
     (if char_at a 0 = CHR ''-'' then
        if char_at a 1 \<in> set ''cfmsw'' then Null_arg else Usage
      else Parsed c [a])"
| "parse_args c (a # v # rest) =
     (if char_at a 0 = CHR ''-'' then
        if char_at a 1 \<in> set ''cfmsw''
        then parse_args (set_option (char_at a 1) (atoi v) c) rest
        else Usage
      else Parsed c (a # v # rest))"

text \<open>
  The option loop meets an unknown letter at the \<open>k\<close>-th pair of arguments: the
  \<open>k\<close> arguments at the even places before it are options with a known letter
  (each takes the argument after it as its value), and the argument at place
  \<open>2 * k\<close> is an option with a letter that the \<^verbatim>\<open>switch\<close> does not know.
\<close>

definition unknown_at :: "string list \<Rightarrow> nat \<Rightarrow> bool" where
  "unknown_at argv k \<longleftrightarrow>
     2 * k < length argv \<and>
     (\<forall>j<k. is_option (argv ! (2 * j)) \<and> known_letter (argv ! (2 * j))) \<and>
     is_option (argv ! (2 * k)) \<and> \<not> known_letter (argv ! (2 * k))"

subsection \<open>main\<close>

text \<open>
  What \<^verbatim>\<open>main\<close> gets from the calls it checks: whether \<^verbatim>\<open>freopen\<close> succeeds, and
  the values returned by \<^verbatim>\<open>gpioInitialise\<close>, \<^verbatim>\<open>wiringPiSetup\<close>, \<^verbatim>\<open>sem_init\<close> and
  \<^verbatim>\<open>pthread_create\<close>.
\<close>

record env =
  freopen_ok :: bool
  gpioInitialise_ret :: cint
  wiringPiSetup_ret :: cint
  sem_init_ret :: cint
  pthread_create_ret :: cint

text \<open>
  How \<^verbatim>\<open>main\<close> ends: the usage and \<^verbatim>\<open>exit(1)\<close>; \<^verbatim>\<open>atoi\<close> of a null pointer;
  \<^verbatim>\<open>perror\<close> and \<^verbatim>\<open>exit(1)\<close>; \<^verbatim>\<open>return -1\<close>; the division by zero of
  \<^verbatim>\<open>keyer_update\<close>; \<^verbatim>\<open>return 1\<close>; \<^verbatim>\<open>exit(-1)\<close>; \<^verbatim>\<open>pthread_join\<close> with no thread
  created; or the keyer thread running with the settings.
\<close>

datatype outcome =
  Exit_usage | Crash_null | Exit_freopen | Return_gpio | Trap_div | Return_wiring
  | Exit_thread | No_thread | Keying config

text \<open>
  \<^verbatim>\<open>main\<close> up to the start of the keyer thread, with the state of the keyer and of
  the key line at that point. Once \<^verbatim>\<open>gpioInitialise\<close> has succeeded, \<^verbatim>\<open>main\<close> writes
  1 to the key line (\<^verbatim>\<open>gpioWrite(KEYER_OUT_GPIO, 1)\<close>), not through
  \<^verbatim>\<open>set_keyer_out\<close>: \<^verbatim>\<open>keyer_out\<close> stays 0.
\<close>

definition main :: "env \<Rightarrow> string list \<Rightarrow> outcome \<times> keyer" where
  "main e argv =
     (case parse_args init_config argv of
        Usage \<Rightarrow> (Exit_usage, init_keyer)
      | Null_arg \<Rightarrow> (Crash_null, init_keyer)
      | Parsed c rest \<Rightarrow>
          if rest \<noteq> [] \<and> \<not> freopen_ok e then (Exit_freopen, init_keyer)
          else if sint (gpioInitialise_ret e) < 0 then (Return_gpio, init_keyer)
          else
            let k = init_keyer\<lparr>gpio_out := True\<rparr>
            in case keyer_update c of
                 None \<Rightarrow> (Trap_div, k)
               | Some c' \<Rightarrow>
                   if sint (wiringPiSetup_ret e) < 0 then (Return_wiring, k)
                   else if sint (sem_init_ret e OR pthread_create_ret e) < 0 then (Exit_thread, k)
                   else if pthread_create_ret e \<noteq> 0 then (No_thread, k)
                   else (Keying c', k))"

subsection \<open>sig\_handler\<close>



subsection \<open>The key line\<close>



section \<open>Timing derivation\<close>

lemmas mode_defs = KEYER_STRAIGHT_def KEYER_MODE_A_def KEYER_MODE_B_def

lemma sint_word_of_int_range:
  assumes "- (2 ^ 31) \<le> k" "k < 2 ^ 31"
  shows "sint (word_of_int k :: cint) = k"
  using assms by (simp add: sint_sbintrunc' signed_take_bit_int_eq_self)

lemma c_div_sint:
  assumes "- (2 ^ 31) \<le> sint a sdiv sint b" "sint a sdiv sint b < 2 ^ 31"
  shows "sint (c_div a b) = sint a sdiv sint b"
  using assms unfolding c_div_def by (rule sint_word_of_int_range)

lemma sdiv_abs_le: "\<bar>(a::int) sdiv b\<bar> \<le> \<bar>a\<bar> div \<bar>b\<bar>"
proof -
  have nn: "0 \<le> \<bar>a\<bar> div \<bar>b\<bar>"
    by (simp add: pos_imp_zdiv_nonneg_iff div_int_pos_iff)
  have "\<bar>a sdiv b\<bar> = \<bar>sgn a\<bar> * \<bar>sgn b\<bar> * \<bar>\<bar>a\<bar> div \<bar>b\<bar>\<bar>"
    by (simp only: signed_divide_int_def abs_mult)
  also have "\<dots> = \<bar>sgn a\<bar> * \<bar>sgn b\<bar> * (\<bar>a\<bar> div \<bar>b\<bar>)"
    using nn by simp
  also have "\<dots> \<le> \<bar>a\<bar> div \<bar>b\<bar>"
    by (cases "a = 0"; cases "b = 0") (simp_all add: abs_sgn_eq)
  finally show ?thesis .
qed

lemma sint_mult3:
  fixes d w :: cint
  assumes "- (2 ^ 31) \<le> sint d * 3 * sint w" "sint d * 3 * sint w < 2 ^ 31"
  shows "sint (d * 3 * w) = sint d * 3 * sint w"
proof -
  have "d * 3 * w = word_of_int (sint d * 3 * sint w)"
    by simp
  then show ?thesis
    using assms sint_word_of_int_range by presburger
qed

text \<open>The quotient of 1200 always fits an \<^verbatim>\<open>int\<close>, and so does a quotient by 50.\<close>

lemma dot_delay_sint: "sint (c_div 1200 s) = 1200 sdiv sint s"
proof -
  have "\<bar>(1200::int) sdiv sint s\<bar> \<le> 1200 div \<bar>sint s\<bar>"
    using sdiv_abs_le [of 1200 "sint s"] by simp
  also have "\<dots> \<le> 1200"
    by (rule int_div_le_self) simp
  finally have "- (2 ^ 31) \<le> (1200::int) sdiv sint s \<and> (1200::int) sdiv sint s < 2 ^ 31"
    by (simp add: abs_le_iff)
  then show ?thesis
    using c_div_sint [of 1200 s] by simp
qed

lemma dash_delay_sint:
  fixes x :: cint
  shows "sint (c_div x 50) = sint x sdiv 50"
proof -
  have "\<bar>sint x sdiv 50\<bar> \<le> \<bar>sint x\<bar> div 50"
    using sdiv_abs_le [of "sint x" 50] by simp
  moreover have "- (2 ^ 31) \<le> sint x" "sint x < 2 ^ 31"
    using sint_ge [of x] sint_lt [of x] by simp_all
  ultimately have "- (2 ^ 31) \<le> sint x sdiv 50 \<and> sint x sdiv 50 < 2 ^ 31"
    by (simp add: abs_le_iff abs_if split: if_splits)
  then show ?thesis
    using c_div_sint [of x 50] by simp
qed

text \<open>
  Claim C4. \<^verbatim>\<open>keyer_update\<close> computes, in integer arithmetic with C's truncating
  division, the dot period \<open>1200 / speed\<close> and the dash period
  \<open>dot_period * 3 * weight / 50\<close>: for every non-zero speed and every weight whose
  product \<open>dot_period * 3 * weight\<close> is an \<^verbatim>\<open>int\<close>, the signed values of
  \<^verbatim>\<open>dot_delay\<close> and \<^verbatim>\<open>dash_delay\<close> are those two quotients. At speed 20 and
  weight 50 the periods are 60 and 180; at speed 20 and weight 66 they are 60 and 237.
\<close>

theorem keyer_update_periods:
  "(cw_keyer_speed c \<noteq> 0 \<and>
    - (2 ^ 31) \<le> (1200 sdiv sint (cw_keyer_speed c)) * 3 * sint (cw_keyer_weight c) \<and>
    (1200 sdiv sint (cw_keyer_speed c)) * 3 * sint (cw_keyer_weight c) < 2 ^ 31 \<longrightarrow>
    (\<exists>c'. keyer_update c = Some c' \<and>
       sint (dot_delay c') = 1200 sdiv sint (cw_keyer_speed c) \<and>
       sint (dash_delay c') = (sint (dot_delay c') * 3 * sint (cw_keyer_weight c)) sdiv 50)) \<and>
   (cw_keyer_speed c = 20 \<and> cw_keyer_weight c = 50 \<longrightarrow>
    (\<exists>c'. keyer_update c = Some c' \<and> dot_delay c' = 60 \<and> dash_delay c' = 180)) \<and>
   (cw_keyer_speed c = 20 \<and> cw_keyer_weight c = 66 \<longrightarrow>
    (\<exists>c'. keyer_update c = Some c' \<and> dot_delay c' = 60 \<and> dash_delay c' = 237))"
proof (intro conjI impI)
  assume a: "cw_keyer_speed c \<noteq> 0 \<and>
    - (2 ^ 31) \<le> (1200 sdiv sint (cw_keyer_speed c)) * 3 * sint (cw_keyer_weight c) \<and>
    (1200 sdiv sint (cw_keyer_speed c)) * 3 * sint (cw_keyer_weight c) < 2 ^ 31"
  define d where "d = c_div 1200 (cw_keyer_speed c)"
  have d: "sint d = 1200 sdiv sint (cw_keyer_speed c)"
    unfolding d_def by (rule dot_delay_sint)
  have "sint (d * 3 * cw_keyer_weight c) = sint d * 3 * sint (cw_keyer_weight c)"
    using a by (intro sint_mult3) (simp_all only: d)
  then have "sint (c_div (d * 3 * cw_keyer_weight c) 50)
      = (sint d * 3 * sint (cw_keyer_weight c)) sdiv 50"
    by (simp only: dash_delay_sint)
  then show "\<exists>c'. keyer_update c = Some c' \<and>
       sint (dot_delay c') = 1200 sdiv sint (cw_keyer_speed c) \<and>
       sint (dash_delay c') = (sint (dot_delay c') * 3 * sint (cw_keyer_weight c)) sdiv 50"
    using a d by (simp add: keyer_update_def Let_def d_def)
next
  assume "cw_keyer_speed c = 20 \<and> cw_keyer_weight c = 50"
  then show "\<exists>c'. keyer_update c = Some c' \<and> dot_delay c' = 60 \<and> dash_delay c' = 180"
    by (simp add: keyer_update_def Let_def c_div_def signed_divide_int_def)
next
  assume "cw_keyer_speed c = 20 \<and> cw_keyer_weight c = 66"
  then show "\<exists>c'. keyer_update c = Some c' \<and> dot_delay c' = 60 \<and> dash_delay c' = 237"
    by (simp add: keyer_update_def Let_def c_div_def signed_divide_int_def)
qed

theorem keyer_update_periods_witness:
  "(\<exists>c'. keyer_update (init_config\<lparr>cw_keyer_weight := 66\<rparr>) = Some c' \<and>
      dot_delay c' = 60 \<and> dash_delay c' = 237) \<and>
   (\<exists>c'. keyer_update (init_config\<lparr>cw_keyer_speed := 18, cw_keyer_weight := 55\<rparr>) = Some c' \<and>
      sint (dot_delay c') = 66 \<and> sint (dash_delay c') = 217)"
  using keyer_update_periods [of "init_config\<lparr>cw_keyer_weight := 66\<rparr>"]
    keyer_update_periods [of "init_config\<lparr>cw_keyer_speed := 18, cw_keyer_weight := 55\<rparr>"]
  by (auto simp add: init_config_def signed_divide_int_def)

section \<open>Mode A, Mode B and the memories\<close>

text \<open>
  Claim C2. The claim wants a dash paddle held during a tick of SENDDOT to set
  \<^verbatim>\<open>dash_memory\<close>, and a dot paddle held during a tick of SENDDASH to set
  \<^verbatim>\<open>dot_memory\<close>, in Mode B as in Mode A. In the code the setting branch hangs
  under the Mode A test. At speed 20, from the initial state: with both paddles
  held, the third tick is the first pass of SENDDOT, and it leaves \<^verbatim>\<open>dash_memory\<close>
  clear in Mode B and set in Mode A; with the dash paddle held and the dot paddle
  joining it at the third tick, the first pass of SENDDASH, that pass leaves
  \<^verbatim>\<open>dot_memory\<close> clear in Mode B and set in Mode A.
\<close>

theorem send_memory_mode_B_not_set:
  "key_state (keyer_loop (init_config\<lparr>cw_keyer_mode := KEYER_MODE_B, dot_delay := 60, dash_delay := 180\<rparr>)
      [\<lparr>kcwl = True, kcwr = True\<rparr>, \<lparr>kcwl = True, kcwr = True\<rparr>] init_keyer) = SENDDOT \<and>
   \<not> dash_memory (keyer_loop (init_config\<lparr>cw_keyer_mode := KEYER_MODE_B, dot_delay := 60, dash_delay := 180\<rparr>)
      [\<lparr>kcwl = True, kcwr = True\<rparr>, \<lparr>kcwl = True, kcwr = True\<rparr>, \<lparr>kcwl = True, kcwr = True\<rparr>]
      init_keyer) \<and>
   dash_memory (keyer_loop (init_config\<lparr>cw_keyer_mode := KEYER_MODE_A, dot_delay := 60, dash_delay := 180\<rparr>)
      [\<lparr>kcwl = True, kcwr = True\<rparr>, \<lparr>kcwl = True, kcwr = True\<rparr>, \<lparr>kcwl = True, kcwr = True\<rparr>]
      init_keyer) \<and>
   key_state (keyer_loop (init_config\<lparr>cw_keyer_mode := KEYER_MODE_B, dot_delay := 60, dash_delay := 180\<rparr>)
      [\<lparr>kcwl = False, kcwr = True\<rparr>, \<lparr>kcwl = False, kcwr = True\<rparr>] init_keyer) = SENDDASH \<and>
   \<not> dot_memory (keyer_loop (init_config\<lparr>cw_keyer_mode := KEYER_MODE_B, dot_delay := 60, dash_delay := 180\<rparr>)
      [\<lparr>kcwl = False, kcwr = True\<rparr>, \<lparr>kcwl = False, kcwr = True\<rparr>, \<lparr>kcwl = True, kcwr = True\<rparr>]
      init_keyer) \<and>
   dot_memory (keyer_loop (init_config\<lparr>cw_keyer_mode := KEYER_MODE_A, dot_delay := 60, dash_delay := 180\<rparr>)
      [\<lparr>kcwl = False, kcwr = True\<rparr>, \<lparr>kcwl = False, kcwr = True\<rparr>, \<lparr>kcwl = True, kcwr = True\<rparr>]
      init_keyer)"
  by (simp add: step_def init_config_def init_keyer_def mode_defs set_keyer_out_def
      clear_memory_def kdot_def kdash_def Let_def)

text \<open>
  Claim C3. In Mode A a tick of SENDDOT with both paddles released clears
  \<^verbatim>\<open>dash_memory\<close>, and a tick of SENDDASH with both released clears \<^verbatim>\<open>dot_memory\<close>;
  the element that was pending is cancelled: when DOTDELAY (DASHDELAY) expires with
  the memory clear, the next state is DOTHELD (DASHHELD), not PREDASH (PREDOT). In
  any other mode, Mode B among them, a tick that finds a memory set and leaves it
  clear is a tick of PREDOT or PREDASH, or the tick of DOTHELD or DASHHELD that
  goes to LETTERSPACE.
\<close>

theorem mode_A_clears_mode_B_keeps:
  "(cw_keyer_mode c = KEYER_MODE_A \<and> key_state s = SENDDOT \<and> \<not> kdot c p \<and> \<not> kdash c p
      \<longrightarrow> \<not> dash_memory (step c p s)) \<and>
   (cw_keyer_mode c = KEYER_MODE_A \<and> key_state s = SENDDASH \<and> \<not> kdot c p \<and> \<not> kdash c p
      \<longrightarrow> \<not> dot_memory (step c p s)) \<and>
   (cw_keyer_mode c = KEYER_MODE_A \<and> key_state s = DOTDELAY \<and> kdelay s = dot_delay c \<and>
      \<not> dash_memory s \<longrightarrow> key_state (step c p s) = DOTHELD) \<and>
   (cw_keyer_mode c = KEYER_MODE_A \<and> key_state s = DASHDELAY \<and> kdelay s = dot_delay c \<and>
      \<not> dot_memory s \<longrightarrow> key_state (step c p s) = DASHHELD) \<and>
   (cw_keyer_mode c \<noteq> KEYER_MODE_A \<and>
      (dot_memory s \<and> \<not> dot_memory (step c p s) \<or> dash_memory s \<and> \<not> dash_memory (step c p s))
      \<longrightarrow> key_state s = PREDOT \<or> key_state s = PREDASH \<or>
          (key_state s = DOTHELD \<or> key_state s = DASHHELD) \<and>
          key_state (step c p s) = LETTERSPACE)"
  by (cases "key_state s")
     (auto simp add: step_def set_keyer_out_def clear_memory_def mode_defs Let_def)

theorem mode_A_clears_mode_B_keeps_witness:
  "\<not> dash_memory (step (init_config\<lparr>dot_delay := 60\<rparr>) \<lparr>kcwl = False, kcwr = False\<rparr>
       (init_keyer\<lparr>key_state := SENDDOT, dash_memory := True\<rparr>)) \<and>
   \<not> dot_memory (step (init_config\<lparr>dot_delay := 60\<rparr>) \<lparr>kcwl = False, kcwr = False\<rparr>
       (init_keyer\<lparr>key_state := SENDDASH, dot_memory := True\<rparr>)) \<and>
   key_state (step (init_config\<lparr>dot_delay := 60\<rparr>) \<lparr>kcwl = False, kcwr = False\<rparr>
       (init_keyer\<lparr>key_state := DOTDELAY, kdelay := 60\<rparr>)) = DOTHELD \<and>
   key_state (step (init_config\<lparr>dot_delay := 60\<rparr>) \<lparr>kcwl = False, kcwr = False\<rparr>
       (init_keyer\<lparr>key_state := DASHDELAY, kdelay := 60\<rparr>)) = DASHHELD \<and>
   key_state (step (init_config\<lparr>cw_keyer_mode := KEYER_MODE_B, cw_keyer_spacing := 1\<rparr>)
       \<lparr>kcwl = False, kcwr = False\<rparr> (init_keyer\<lparr>key_state := DOTHELD, dash_memory := True\<rparr>))
     = LETTERSPACE"
  using
    mode_A_clears_mode_B_keeps [of "init_config\<lparr>dot_delay := 60\<rparr>"
      "init_keyer\<lparr>key_state := SENDDOT, dash_memory := True\<rparr>" "\<lparr>kcwl = False, kcwr = False\<rparr>"]
    mode_A_clears_mode_B_keeps [of "init_config\<lparr>dot_delay := 60\<rparr>"
      "init_keyer\<lparr>key_state := SENDDASH, dot_memory := True\<rparr>" "\<lparr>kcwl = False, kcwr = False\<rparr>"]
    mode_A_clears_mode_B_keeps [of "init_config\<lparr>dot_delay := 60\<rparr>"
      "init_keyer\<lparr>key_state := DOTDELAY, kdelay := 60\<rparr>" "\<lparr>kcwl = False, kcwr = False\<rparr>"]
    mode_A_clears_mode_B_keeps [of "init_config\<lparr>dot_delay := 60\<rparr>"
      "init_keyer\<lparr>key_state := DASHDELAY, kdelay := 60\<rparr>" "\<lparr>kcwl = False, kcwr = False\<rparr>"]
    mode_A_clears_mode_B_keeps [of "init_config\<lparr>cw_keyer_mode := KEYER_MODE_B, cw_keyer_spacing := 1\<rparr>"
      "init_keyer\<lparr>key_state := DOTHELD, dash_memory := True\<rparr>" "\<lparr>kcwl = False, kcwr = False\<rparr>"]
  by (simp add: init_config_def init_keyer_def mode_defs kdot_def kdash_def
      step_def clear_memory_def)

text \<open>A mode that is neither 0 nor 1 takes the branches of Mode B in every state.\<close>

lemma step_mode_B:
  assumes "cw_keyer_mode c \<noteq> KEYER_STRAIGHT" "cw_keyer_mode c \<noteq> KEYER_MODE_A"
  shows "step c p s = step (c\<lparr>cw_keyer_mode := KEYER_MODE_B\<rparr>) p s"
  using assms
  by (cases "key_state s")
     (simp_all add: step_def kdot_def kdash_def set_keyer_out_def mode_defs Let_def)

lemma keyer_loop_mode_B:
  assumes "cw_keyer_mode c \<noteq> KEYER_STRAIGHT" "cw_keyer_mode c \<noteq> KEYER_MODE_A"
  shows "keyer_loop c ps s = keyer_loop (c\<lparr>cw_keyer_mode := KEYER_MODE_B\<rparr>) ps s"
  using assms
  by (induction ps arbitrary: s) (simp_all add: step_mode_B [symmetric])

text \<open>
  Claim C10. For every mode value other than 0 (STRAIGHT) and 1 (Mode A), 3 and -1
  among them, the keyer behaves as in Mode B (2): each pass of the switch gives the
  same state, the loop gives the same state over any run of paddle contacts, tick
  for tick, and the paddle callback wakes the thread on the same events.
\<close>

theorem other_modes_are_mode_B:
  assumes "cw_keyer_mode c \<noteq> KEYER_STRAIGHT" and "cw_keyer_mode c \<noteq> KEYER_MODE_A"
  shows "step c p s = step (c\<lparr>cw_keyer_mode := KEYER_MODE_B\<rparr>) p s \<and>
         keyer_loop c ps s = keyer_loop (c\<lparr>cw_keyer_mode := KEYER_MODE_B\<rparr>) ps s \<and>
         keyer_event c gpio level pd = keyer_event (c\<lparr>cw_keyer_mode := KEYER_MODE_B\<rparr>) gpio level pd"
  using assms step_mode_B [OF assms] keyer_loop_mode_B [OF assms]
  by (simp add: keyer_event_def mode_defs)

theorem other_modes_are_mode_B_witness:
  "step (init_config\<lparr>cw_keyer_mode := 3, dot_delay := 60\<rparr>) \<lparr>kcwl = True, kcwr = True\<rparr>
       (init_keyer\<lparr>key_state := SENDDOT\<rparr>)
     = step (init_config\<lparr>cw_keyer_mode := KEYER_MODE_B, dot_delay := 60\<rparr>) \<lparr>kcwl = True, kcwr = True\<rparr>
       (init_keyer\<lparr>key_state := SENDDOT\<rparr>) \<and>
   keyer_loop (init_config\<lparr>cw_keyer_mode := - 1, dot_delay := 60\<rparr>)
       [\<lparr>kcwl = True, kcwr = True\<rparr>, \<lparr>kcwl = True, kcwr = False\<rparr>] init_keyer
     = keyer_loop (init_config\<lparr>cw_keyer_mode := KEYER_MODE_B, dot_delay := 60\<rparr>)
       [\<lparr>kcwl = True, kcwr = True\<rparr>, \<lparr>kcwl = True, kcwr = False\<rparr>] init_keyer"
  using
    other_modes_are_mode_B [of "init_config\<lparr>cw_keyer_mode := 3, dot_delay := 60\<rparr>"
      "\<lparr>kcwl = True, kcwr = True\<rparr>" "init_keyer\<lparr>key_state := SENDDOT\<rparr>"]
    other_modes_are_mode_B [of "init_config\<lparr>cw_keyer_mode := - 1, dot_delay := 60\<rparr>" _ init_keyer
      "[\<lparr>kcwl = True, kcwr = True\<rparr>, \<lparr>kcwl = True, kcwr = False\<rparr>]"]
  by (simp add: init_config_def mode_defs)


section \<open>Running the loop\<close>

lemma keyer_loop_snoc:
  "keyer_loop c (ps @ [p]) s =
     (if key_state (keyer_loop c ps s) = EXITLOOP then keyer_loop c ps s
      else step c p (keyer_loop c ps s))"
  by (induction ps arbitrary: s) simp_all

lemma run_0: "run c p 0 s = s"
  by (simp add: run_def)

lemma run_Suc:
  "run c p (Suc n) s =
     (if key_state (run c p n s) = EXITLOOP then run c p n s else step c p (run c p n s))"
proof -
  have "replicate (Suc n) p = replicate n p @ [p]"
    by (simp add: replicate_append_same)
  then show ?thesis
    unfolding run_def by (simp only: keyer_loop_snoc)
qed

lemma count_neq: "k < unat (d::cint) \<Longrightarrow> of_nat k \<noteq> d"
proof
  assume k: "k < unat d" and e: "of_nat k = d"
  have "unat d < 2 ^ 32"
    using unsigned_less [of d, where 'a = nat] by simp
  with k have "unat (of_nat k :: cint) = k"
    by (simp add: unat_of_nat)
  with e k show False by simp
qed


section \<open>Squeeze keying\<close>

text \<open>
  One pass of the switch with both paddles held moves the keyer from one offset of
  the squeeze to the next, and from the last one back to the first.
\<close>

lemma sq_match_step:
  assumes m: "sq_match c r t" and r: "r < squeeze_period c"
    and mode: "cw_keyer_mode c \<noteq> KEYER_STRAIGHT"
    and held: "kdot c p" "kdash c p"
    and d0: "dot_delay c \<noteq> 0"
  shows "sq_match c (if Suc r = squeeze_period c then 0 else Suc r) (step c p t)"
proof -
  define d where "d = unat (dot_delay c)"
  define D where "D = unat (dash_delay c)"
  have dpos: "0 < d"
    using d0 unfolding d_def by (simp add: unat_gt_0)
  have dd: "of_nat d = dot_delay c" "of_nat D = dash_delay c"
    by (simp_all add: d_def D_def)
  have ne: "\<And>k. k < d \<Longrightarrow> of_nat k \<noteq> dot_delay c" "\<And>k. k < D \<Longrightarrow> of_nat k \<noteq> dash_delay c"
    by (simp_all add: d_def D_def count_neq)
  note defs = sq_match_def squeeze_state_def squeeze_out_def squeeze_kdelay_def squeeze_period_def
    Let_def d_def [symmetric] D_def [symmetric]
  consider (a) "r < d" | (b) "r = d" | (c) "d + 1 \<le> r" "r < 2 * d + 1" | (d) "r = 2 * d + 1"
    | (e) "r = 2 * d + 2" | (f) "2 * d + 3 \<le> r" "r < 2 * d + 3 + D" | (g) "r = 2 * d + 3 + D"
    | (h) "2 * d + 4 + D \<le> r" "r < 3 * d + 4 + D" | (i) "r = 3 * d + 4 + D"
    | (j) "r = 3 * d + 5 + D"
    using r unfolding squeeze_period_def d_def D_def by linarith
  then show ?thesis
  proof cases
    case a
    with m ne(1) [of r] mode held show ?thesis
      by (simp add: defs step_def set_keyer_out_def mode_defs)
  next
    case b
    with m dd mode held dpos show ?thesis
      by (simp add: defs step_def set_keyer_out_def mode_defs)
  next
    case c
    with m ne(1) [of "r - (d + 1)"] mode held dpos show ?thesis
      by (simp add: defs step_def set_keyer_out_def mode_defs Suc_diff_le)
  next
    case d
    with m dd mode held dpos show ?thesis
      by (simp add: defs step_def set_keyer_out_def mode_defs)
  next
    case e
    with m dd mode held dpos show ?thesis
      by (simp add: defs step_def set_keyer_out_def mode_defs clear_memory_def)
  next
    case f
    with m ne(2) [of "r - (2 * d + 3)"] mode held dpos show ?thesis
      by (simp add: defs step_def set_keyer_out_def mode_defs Suc_diff_le)
  next
    case g
    with m dd mode held dpos show ?thesis
      by (simp add: defs step_def set_keyer_out_def mode_defs)
  next
    case h
    with m ne(1) [of "r - (2 * d + 4 + D)"] mode held dpos show ?thesis
      by (simp add: defs step_def set_keyer_out_def mode_defs Suc_diff_le)
  next
    case i
    with m dd mode held dpos show ?thesis
      by (simp add: defs step_def set_keyer_out_def mode_defs)
  next
    case j
    with m dd mode held dpos show ?thesis
      by (simp add: defs step_def set_keyer_out_def mode_defs clear_memory_def)
  qed
qed

lemma sq_match_not_exit: "sq_match c r t \<Longrightarrow> key_state t \<noteq> EXITLOOP"
  by (simp add: sq_match_def squeeze_state_def Let_def)

lemma sq_match_run:
  assumes mode: "cw_keyer_mode c \<noteq> KEYER_STRAIGHT"
    and held: "kdot c p" "kdash c p"
    and d0: "dot_delay c \<noteq> 0"
    and s: "key_state s = CHECK" "kdelay s = 0" "\<not> keyer_out s"
  shows "sq_match c (n mod squeeze_period c) (run c p (n + 2) s)"
proof (induction n)
  case 0
  have "run c p (Suc (Suc 0)) s = step c p (step c p s)"
    using s mode held by (simp add: run_Suc run_0 step_def mode_defs)
  then show ?case
    using s mode held
    by (simp add: sq_match_def squeeze_state_def squeeze_out_def squeeze_kdelay_def
        squeeze_period_def step_def mode_defs clear_memory_def)
next
  case (Suc n)
  have lt: "n mod squeeze_period c < squeeze_period c"
    by (simp add: squeeze_period_def)
  have "run c p (Suc n + 2) s = step c p (run c p (n + 2) s)"
    using sq_match_not_exit [OF Suc.IH] by (simp add: run_Suc)
  then show ?case
    using sq_match_step [OF Suc.IH lt mode held d0] by (simp add: mod_Suc)
qed


text \<open>
  Claim C1, as the code has it. In Mode A and in Mode B (in every mode but
  STRAIGHT), with a dot period that is not zero, with both paddles held from the
  idle state (CHECK, the counter at 0, the output de-asserted), the loop goes
  through PREDOT and then, for ever, through SENDDOT, DOTDELAY, PREDASH, SENDDASH,
  DASHDELAY, PREDOT and SENDDOT again: after \<open>n + 2\<close> ticks the keyer is at offset
  \<open>n mod squeeze_period\<close> of that course, for every \<open>n\<close>. The output is asserted
  for the dot period during the dot and for the dash period during the dash, and
  de-asserted for the dot period and three ticks more between them.
  \<^verbatim>\<open>dash_memory\<close> is set when PREDASH is reached, \<^verbatim>\<open>dot_memory\<close> when PREDOT is,
  and EXITLOOP is never reached. Letter spacing plays no part.
\<close>

theorem squeeze_alternates_forever:
  assumes "cw_keyer_mode c \<noteq> KEYER_STRAIGHT"
    and "kdot c p" and "kdash c p"
    and "dot_delay c \<noteq> 0"
    and "key_state s = CHECK" and "kdelay s = 0" and "\<not> keyer_out s"
  shows "key_state (run c p 1 s) = PREDOT \<and>
         (\<forall>n. key_state (run c p (n + 2) s) = squeeze_state c (n mod squeeze_period c) \<and>
              keyer_out (run c p (n + 2) s) = squeeze_out c (n mod squeeze_period c) \<and>
              kdelay (run c p (n + 2) s) = of_nat (squeeze_kdelay c (n mod squeeze_period c)) \<and>
              (key_state (run c p (n + 2) s) = PREDASH \<longrightarrow> dash_memory (run c p (n + 2) s)) \<and>
              (key_state (run c p (n + 2) s) = PREDOT \<longrightarrow> dot_memory (run c p (n + 2) s)) \<and>
              key_state (run c p (n + 2) s) \<noteq> EXITLOOP)"
proof (intro conjI allI)
  show "key_state (run c p 1 s) = PREDOT"
    using assms by (simp add: run_Suc run_0 step_def mode_defs)
next
  fix n
  have m: "sq_match c (n mod squeeze_period c) (run c p (n + 2) s)"
    using assms by (rule sq_match_run)
  show "key_state (run c p (n + 2) s) = squeeze_state c (n mod squeeze_period c)"
    "keyer_out (run c p (n + 2) s) = squeeze_out c (n mod squeeze_period c)"
    "kdelay (run c p (n + 2) s) = of_nat (squeeze_kdelay c (n mod squeeze_period c))"
    "key_state (run c p (n + 2) s) \<noteq> EXITLOOP"
    using m sq_match_not_exit [OF m] by (simp_all add: sq_match_def)
  show "key_state (run c p (n + 2) s) = PREDASH \<longrightarrow> dash_memory (run c p (n + 2) s)"
    using m by (simp add: sq_match_def squeeze_state_def Let_def split: if_splits)
  show "key_state (run c p (n + 2) s) = PREDOT \<longrightarrow> dot_memory (run c p (n + 2) s)"
    using m by (simp add: sq_match_def squeeze_state_def Let_def split: if_splits)
qed


theorem squeeze_alternates_forever_witness:
  "key_state (run (init_config\<lparr>dot_delay := 60, dash_delay := 180\<rparr>)
       \<lparr>kcwl = True, kcwr = True\<rparr> 1 init_keyer) = PREDOT \<and>
   key_state (run (init_config\<lparr>dot_delay := 60, dash_delay := 180\<rparr>)
       \<lparr>kcwl = True, kcwr = True\<rparr> (1042 + 2) init_keyer) = DASHDELAY \<and>
   \<not> keyer_out (run (init_config\<lparr>dot_delay := 60, dash_delay := 180\<rparr>)
       \<lparr>kcwl = True, kcwr = True\<rparr> (1042 + 2) init_keyer) \<and>
   key_state (run (init_config\<lparr>cw_keyer_mode := KEYER_MODE_B, dot_delay := 60, dash_delay := 180\<rparr>)
       \<lparr>kcwl = True, kcwr = True\<rparr> (500 + 2) init_keyer) = SENDDASH \<and>
   keyer_out (run (init_config\<lparr>cw_keyer_mode := KEYER_MODE_B, dot_delay := 60, dash_delay := 180\<rparr>)
       \<lparr>kcwl = True, kcwr = True\<rparr> (500 + 2) init_keyer)"
proof -
  let ?p = "\<lparr>kcwl = True, kcwr = True\<rparr>"
  let ?a = "init_config\<lparr>dot_delay := 60, dash_delay := 180\<rparr>"
  let ?b = "init_config\<lparr>cw_keyer_mode := KEYER_MODE_B, dot_delay := 60, dash_delay := 180\<rparr>"
  have a: "cw_keyer_mode ?a \<noteq> KEYER_STRAIGHT" "kdot ?a ?p" "kdash ?a ?p" "dot_delay ?a \<noteq> 0"
    by (simp_all add: init_config_def mode_defs kdot_def kdash_def)
  have b: "cw_keyer_mode ?b \<noteq> KEYER_STRAIGHT" "kdot ?b ?p" "kdash ?b ?p" "dot_delay ?b \<noteq> 0"
    by (simp_all add: init_config_def mode_defs kdot_def kdash_def)
  have s: "key_state init_keyer = CHECK" "kdelay init_keyer = 0" "\<not> keyer_out init_keyer"
    by (simp_all add: init_keyer_def)
  have pa: "squeeze_period ?a = 366" and pb: "squeeze_period ?b = 366"
    by (simp_all add: squeeze_period_def init_config_def)
  note A = squeeze_alternates_forever [OF a s]
  note B = squeeze_alternates_forever [OF b s]
  from A have A1: "key_state (run ?a ?p 1 init_keyer) = PREDOT"
    by (rule conjunct1)
  from A [THEN conjunct2, THEN spec, of 1042]
  have A2: "key_state (run ?a ?p (1042 + 2) init_keyer) = DASHDELAY"
    "\<not> keyer_out (run ?a ?p (1042 + 2) init_keyer)"
    by (simp_all only: pa) (simp_all add: squeeze_state_def squeeze_out_def init_config_def)
  from B [THEN conjunct2, THEN spec, of 500]
  have B2: "key_state (run ?b ?p (500 + 2) init_keyer) = SENDDASH"
    "keyer_out (run ?b ?p (500 + 2) init_keyer)"
    by (simp_all only: pb) (simp_all add: squeeze_state_def squeeze_out_def init_config_def)
  from A1 A2 B2 show ?thesis by (intro conjI)
qed

text \<open>
  Claim C1, as stated, fails in the gaps. At speed 20 (a dot period of 60, a dash
  period of 180) with both paddles held from the initial state, the dot is
  asserted by the third tick. It is still asserted 59 ticks later and de-asserted
  60 ticks later. 120 ticks later, where a gap of one dot period is over and the
  claim has the dash asserted, the output is de-asserted; it still is 122 ticks
  later, and the dash is asserted 123 ticks later: the gap is 63 ticks. And with
  a dot period of 0 (speed 2000), Mode B finds \<^verbatim>\<open>dash_memory\<close> clear when DOTDELAY
  expires and goes to DOTHELD, a state that the claim's course does not have.
\<close>

theorem squeeze_gap_longer_than_dot:
  "claimed_squeeze_out (init_config\<lparr>dot_delay := 60, dash_delay := 180\<rparr>) 120 \<and>
   keyer_out (run (init_config\<lparr>dot_delay := 60, dash_delay := 180\<rparr>)
      \<lparr>kcwl = True, kcwr = True\<rparr> (3 + 59) init_keyer) \<and>
   \<not> keyer_out (run (init_config\<lparr>dot_delay := 60, dash_delay := 180\<rparr>)
      \<lparr>kcwl = True, kcwr = True\<rparr> (3 + 60) init_keyer) \<and>
   \<not> keyer_out (run (init_config\<lparr>dot_delay := 60, dash_delay := 180\<rparr>)
      \<lparr>kcwl = True, kcwr = True\<rparr> (3 + 120) init_keyer) \<and>
   \<not> keyer_out (run (init_config\<lparr>dot_delay := 60, dash_delay := 180\<rparr>)
      \<lparr>kcwl = True, kcwr = True\<rparr> (3 + 122) init_keyer) \<and>
   keyer_out (run (init_config\<lparr>dot_delay := 60, dash_delay := 180\<rparr>)
      \<lparr>kcwl = True, kcwr = True\<rparr> (3 + 123) init_keyer) \<and>
   key_state (run (init_config\<lparr>cw_keyer_speed := 2000, cw_keyer_mode := KEYER_MODE_B\<rparr>)
      \<lparr>kcwl = True, kcwr = True\<rparr> 4 init_keyer) = DOTHELD"
proof -
  let ?p = "\<lparr>kcwl = True, kcwr = True\<rparr>"
  let ?a = "init_config\<lparr>dot_delay := 60, dash_delay := 180\<rparr>"
  have a: "cw_keyer_mode ?a \<noteq> KEYER_STRAIGHT" "kdot ?a ?p" "kdash ?a ?p" "dot_delay ?a \<noteq> 0"
    by (simp_all add: init_config_def mode_defs kdot_def kdash_def)
  have s: "key_state init_keyer = CHECK" "kdelay init_keyer = 0" "\<not> keyer_out init_keyer"
    by (simp_all add: init_keyer_def)
  have pa: "squeeze_period ?a = 366"
    by (simp add: squeeze_period_def init_config_def)
  note M = sq_match_run [OF a s]
  have m: "\<And>n. n < 366 \<Longrightarrow> keyer_out (run ?a ?p (n + 2) init_keyer) = squeeze_out ?a n"
    using M by (simp add: sq_match_def pa)
  have o: "squeeze_out ?a 60" "\<not> squeeze_out ?a 61" "\<not> squeeze_out ?a 121"
    "\<not> squeeze_out ?a 123" "squeeze_out ?a 124"
    by (simp_all add: squeeze_out_def init_config_def)
  have c1: "keyer_out (run ?a ?p (3 + 59) init_keyer)"
    using m [of 60] o by simp
  have c2: "\<not> keyer_out (run ?a ?p (3 + 60) init_keyer)"
    using m [of 61] o by simp
  have c3: "\<not> keyer_out (run ?a ?p (3 + 120) init_keyer)"
    using m [of 121] o by simp
  have c4: "\<not> keyer_out (run ?a ?p (3 + 122) init_keyer)"
    using m [of 123] o by simp
  have c5: "keyer_out (run ?a ?p (3 + 123) init_keyer)"
    using m [of 124] o by simp
  have c0: "claimed_squeeze_out ?a 120"
    by (simp add: claimed_squeeze_out_def init_config_def)
  have c6: "key_state (run (init_config\<lparr>cw_keyer_speed := 2000, cw_keyer_mode := KEYER_MODE_B\<rparr>)
      ?p 4 init_keyer) = DOTHELD"
    by (simp add: run_def numeral_eq_Suc step_def init_config_def init_keyer_def mode_defs
        kdot_def kdash_def set_keyer_out_def clear_memory_def)
  from c0 c1 c2 c3 c4 c5 c6 show ?thesis by (intro conjI)
qed

section \<open>Automatic dots and the straight key\<close>

lemma bug_match_step:
  assumes m: "bug_match c r t" and r: "r < bug_period c"
    and mode: "cw_keyer_mode c = KEYER_STRAIGHT"
    and held: "kdot c p" "\<not> kdash c p"
  shows "bug_match c (if Suc r = bug_period c then 0 else Suc r) (step c p t)"
proof -
  define d where "d = unat (dot_delay c)"
  have dd: "of_nat d = dot_delay c"
    by (simp add: d_def)
  have ne: "\<And>k. k < d \<Longrightarrow> of_nat k \<noteq> dot_delay c"
    by (simp add: d_def count_neq)
  note defs = bug_match_def bug_state_def bug_out_def bug_kdelay_def bug_period_def
    Let_def d_def [symmetric]
  consider (a) "r < d" | (b) "r = d" | (c) "d + 1 \<le> r" "r < 2 * d + 1" | (d) "r = 2 * d + 1"
    | (e) "r = 2 * d + 2" | (f) "r = 2 * d + 3"
    using r unfolding bug_period_def d_def by linarith
  then show ?thesis
  proof cases
    case a
    with m ne [of r] mode held show ?thesis
      by (simp add: defs step_def set_keyer_out_def mode_defs)
  next
    case b
    with m dd mode held show ?thesis
      by (simp add: defs step_def set_keyer_out_def mode_defs)
  next
    case c
    with m ne [of "r - (d + 1)"] mode held show ?thesis
      by (simp add: defs step_def set_keyer_out_def mode_defs Suc_diff_le)
  next
    case d
    with m dd mode held show ?thesis
      by (simp add: defs step_def set_keyer_out_def mode_defs)
  next
    case e
    with m dd mode held show ?thesis
      by (simp add: defs step_def set_keyer_out_def mode_defs)
  next
    case f
    with m dd mode held show ?thesis
      by (simp add: defs step_def set_keyer_out_def mode_defs clear_memory_def)
  qed
qed

lemma bug_match_not_exit: "bug_match c r t \<Longrightarrow> key_state t \<noteq> EXITLOOP"
  by (simp add: bug_match_def bug_state_def Let_def)

lemma bug_match_run:
  assumes mode: "cw_keyer_mode c = KEYER_STRAIGHT"
    and held: "kdot c p" "\<not> kdash c p"
    and s: "key_state s = CHECK" "kdelay s = 0" "\<not> keyer_out s"
  shows "bug_match c (n mod bug_period c) (run c p (n + 2) s)"
proof (induction n)
  case 0
  have "run c p (Suc (Suc 0)) s = step c p (step c p s)"
    using s mode held by (simp add: run_Suc run_0 step_def mode_defs)
  then show ?case
    using s mode held
    by (simp add: bug_match_def bug_state_def bug_out_def bug_kdelay_def
        bug_period_def step_def mode_defs clear_memory_def)
next
  case (Suc n)
  have lt: "n mod bug_period c < bug_period c"
    by (simp add: bug_period_def)
  have "run c p (Suc n + 2) s = step c p (run c p (n + 2) s)"
    using bug_match_not_exit [OF Suc.IH] by (simp add: run_Suc)
  then show ?case
    using bug_match_step [OF Suc.IH lt mode held] by (simp add: mod_Suc)
qed

text \<open>
  Claim C5, as the code has it. In STRAIGHT mode: (1) an event of the paddle
  callback that leaves the dot paddle released posts the semaphore whatever the
  level, and the thread it wakes ends the loop in one pass with the output equal
  to the dash paddle (for the right paddle with no swap, asserted exactly when
  the level is 0, the paddle held); the tick counter is not touched. (2) With only
  the dot paddle held, from CHECK, the loop goes through PREDOT and then, for
  ever, through SENDDOT, DOTDELAY, DOTHELD, PREDOT and SENDDOT again, and never
  reaches EXITLOOP: the output is asserted for the dot period and de-asserted for
  the dot period and four ticks more, over and over. (3) When DOTDELAY expires
  with the dot paddle released, the next state is EXITLOOP.
\<close>

theorem straight_mode_key_and_bug:
  assumes "cw_keyer_mode c = KEYER_STRAIGHT"
  shows "(\<not> kdot c (fst (keyer_event c gpio level pd)) \<longrightarrow>
            snd (keyer_event c gpio level pd) \<and>
            wake c (fst (keyer_event c gpio level pd) # ps) s0
              = (set_keyer_out c (kdash c (fst (keyer_event c gpio level pd))) s0)
                  \<lparr>key_state := EXITLOOP\<rparr> \<and>
            keyer_out (wake c (fst (keyer_event c gpio level pd) # ps) s0)
              = kdash c (fst (keyer_event c gpio level pd)) \<and>
            (cw_keys_reversed c = 0 \<and> gpio = RIGHT_PADDLE_GPIO \<longrightarrow>
               kdash c (fst (keyer_event c gpio level pd)) = (level = 0))) \<and>
         (kdot c p \<and> \<not> kdash c p \<and> kdelay s = 0 \<and> \<not> keyer_out s \<longrightarrow>
            (\<forall>n. key_state (run c p (n + 2) (s\<lparr>key_state := CHECK\<rparr>)) = bug_state c (n mod bug_period c) \<and>
                 keyer_out (run c p (n + 2) (s\<lparr>key_state := CHECK\<rparr>)) = bug_out c (n mod bug_period c) \<and>
                 key_state (run c p (n + 2) (s\<lparr>key_state := CHECK\<rparr>)) \<noteq> EXITLOOP)) \<and>
         (key_state s = DOTDELAY \<and> kdelay s = dot_delay c \<and> \<not> kdot c p \<longrightarrow>
            key_state (step c p s) = EXITLOOP)"
proof (intro conjI impI allI)
  assume "\<not> kdot c (fst (keyer_event c gpio level pd))"
  then show "wake c (fst (keyer_event c gpio level pd) # ps) s0
              = (set_keyer_out c (kdash c (fst (keyer_event c gpio level pd))) s0)
                  \<lparr>key_state := EXITLOOP\<rparr>"
    using assms
    by (cases ps) (simp_all add: wake_def step_def mode_defs set_keyer_out_def)
  then show "keyer_out (wake c (fst (keyer_event c gpio level pd) # ps) s0)
              = kdash c (fst (keyer_event c gpio level pd))"
    by (simp add: set_keyer_out_def)
  show "snd (keyer_event c gpio level pd)"
    using assms by (simp add: keyer_event_def Let_def)
next
  assume "cw_keys_reversed c = 0 \<and> gpio = RIGHT_PADDLE_GPIO"
  then show "kdash c (fst (keyer_event c gpio level pd)) = (level = 0)"
    by (simp add: keyer_event_def kdash_def Let_def LEFT_PADDLE_GPIO_def RIGHT_PADDLE_GPIO_def)
next
  fix n
  assume a: "kdot c p \<and> \<not> kdash c p \<and> kdelay s = 0 \<and> \<not> keyer_out s"
  have m: "bug_match c (n mod bug_period c) (run c p (n + 2) (s\<lparr>key_state := CHECK\<rparr>))"
    using assms a by (intro bug_match_run) simp_all
  show "key_state (run c p (n + 2) (s\<lparr>key_state := CHECK\<rparr>)) = bug_state c (n mod bug_period c)"
    "keyer_out (run c p (n + 2) (s\<lparr>key_state := CHECK\<rparr>)) = bug_out c (n mod bug_period c)"
    "key_state (run c p (n + 2) (s\<lparr>key_state := CHECK\<rparr>)) \<noteq> EXITLOOP"
    using m bug_match_not_exit [OF m] by (simp_all add: bug_match_def)
next
  assume "key_state s = DOTDELAY \<and> kdelay s = dot_delay c \<and> \<not> kdot c p"
  then show "key_state (step c p s) = EXITLOOP"
    using assms by (simp add: step_def mode_defs Let_def)
qed

theorem straight_mode_key_and_bug_witness:
  "snd (keyer_event (init_config\<lparr>cw_keyer_mode := KEYER_STRAIGHT, dot_delay := 60, dash_delay := 180\<rparr>)
     RIGHT_PADDLE_GPIO 1 \<lparr>kcwl = False, kcwr = True\<rparr>) \<and>
   \<not> keyer_out (wake (init_config\<lparr>cw_keyer_mode := KEYER_STRAIGHT, dot_delay := 60, dash_delay := 180\<rparr>)
     [fst (keyer_event (init_config\<lparr>cw_keyer_mode := KEYER_STRAIGHT, dot_delay := 60, dash_delay := 180\<rparr>)
        RIGHT_PADDLE_GPIO 1 \<lparr>kcwl = False, kcwr = True\<rparr>)]
     (init_keyer\<lparr>key_state := EXITLOOP, keyer_out := True, gpio_out := True\<rparr>)) \<and>
   key_state (run (init_config\<lparr>cw_keyer_mode := KEYER_STRAIGHT, dot_delay := 60, dash_delay := 180\<rparr>)
     \<lparr>kcwl = True, kcwr = False\<rparr> (1000 + 2) (init_keyer\<lparr>key_state := CHECK\<rparr>)) = SENDDOT \<and>
   keyer_out (run (init_config\<lparr>cw_keyer_mode := KEYER_STRAIGHT, dot_delay := 60, dash_delay := 180\<rparr>)
     \<lparr>kcwl = True, kcwr = False\<rparr> (1000 + 2) (init_keyer\<lparr>key_state := CHECK\<rparr>)) \<and>
   key_state (step (init_config\<lparr>cw_keyer_mode := KEYER_STRAIGHT, dot_delay := 60, dash_delay := 180\<rparr>)
     \<lparr>kcwl = False, kcwr = False\<rparr> (init_keyer\<lparr>key_state := DOTDELAY, kdelay := 60\<rparr>)) = EXITLOOP"
proof -
  let ?c = "init_config\<lparr>cw_keyer_mode := KEYER_STRAIGHT, dot_delay := 60, dash_delay := 180\<rparr>"
  have m: "cw_keyer_mode ?c = KEYER_STRAIGHT"
    by simp
  have per: "bug_period ?c = 124"
    by (simp add: bug_period_def)
  note T1 = straight_mode_key_and_bug [OF m, of RIGHT_PADDLE_GPIO 1 "\<lparr>kcwl = False, kcwr = True\<rparr>"
      "[]" "init_keyer\<lparr>key_state := EXITLOOP, keyer_out := True, gpio_out := True\<rparr>"
      "\<lparr>kcwl = True, kcwr = False\<rparr>" init_keyer]
  note T3 = straight_mode_key_and_bug [OF m, of _ _ _ _ _
      "\<lparr>kcwl = False, kcwr = False\<rparr>" "init_keyer\<lparr>key_state := DOTDELAY, kdelay := 60\<rparr>"]
  have r: "\<not> kdot ?c (fst (keyer_event ?c RIGHT_PADDLE_GPIO 1 \<lparr>kcwl = False, kcwr = True\<rparr>))"
    by (simp add: keyer_event_def kdot_def init_config_def LEFT_PADDLE_GPIO_def RIGHT_PADDLE_GPIO_def)
  have k: "\<not> kdash ?c (fst (keyer_event ?c RIGHT_PADDLE_GPIO 1 \<lparr>kcwl = False, kcwr = True\<rparr>))"
    by (simp add: keyer_event_def kdash_def init_config_def LEFT_PADDLE_GPIO_def RIGHT_PADDLE_GPIO_def)
  from T1 r k have c1: "snd (keyer_event ?c RIGHT_PADDLE_GPIO 1 \<lparr>kcwl = False, kcwr = True\<rparr>)"
    "\<not> keyer_out (wake ?c [fst (keyer_event ?c RIGHT_PADDLE_GPIO 1 \<lparr>kcwl = False, kcwr = True\<rparr>)]
       (init_keyer\<lparr>key_state := EXITLOOP, keyer_out := True, gpio_out := True\<rparr>))"
    by blast+
  have h: "kdot ?c \<lparr>kcwl = True, kcwr = False\<rparr> \<and> \<not> kdash ?c \<lparr>kcwl = True, kcwr = False\<rparr> \<and>
      kdelay init_keyer = 0 \<and> \<not> keyer_out init_keyer"
    by (simp add: kdot_def kdash_def init_config_def init_keyer_def)
  from T1 h have "\<forall>n. key_state (run ?c \<lparr>kcwl = True, kcwr = False\<rparr> (n + 2) (init_keyer\<lparr>key_state := CHECK\<rparr>))
        = bug_state ?c (n mod bug_period ?c) \<and>
      keyer_out (run ?c \<lparr>kcwl = True, kcwr = False\<rparr> (n + 2) (init_keyer\<lparr>key_state := CHECK\<rparr>))
        = bug_out ?c (n mod bug_period ?c) \<and>
      key_state (run ?c \<lparr>kcwl = True, kcwr = False\<rparr> (n + 2) (init_keyer\<lparr>key_state := CHECK\<rparr>)) \<noteq> EXITLOOP"
    by blast
  from this [THEN spec, of 1000]
  have c2: "key_state (run ?c \<lparr>kcwl = True, kcwr = False\<rparr> (1000 + 2) (init_keyer\<lparr>key_state := CHECK\<rparr>)) = SENDDOT"
    "keyer_out (run ?c \<lparr>kcwl = True, kcwr = False\<rparr> (1000 + 2) (init_keyer\<lparr>key_state := CHECK\<rparr>))"
    by (simp_all only: per) (simp_all add: bug_state_def bug_out_def)
  have "key_state (init_keyer\<lparr>key_state := DOTDELAY, kdelay := 60\<rparr>) = DOTDELAY \<and>
      kdelay (init_keyer\<lparr>key_state := DOTDELAY, kdelay := 60\<rparr>) = dot_delay ?c \<and>
      \<not> kdot ?c \<lparr>kcwl = False, kcwr = False\<rparr>"
    by (simp add: kdot_def init_config_def)
  with T3 have c3: "key_state (step ?c \<lparr>kcwl = False, kcwr = False\<rparr>
      (init_keyer\<lparr>key_state := DOTDELAY, kdelay := 60\<rparr>)) = EXITLOOP"
    by blast
  from c1 c2 c3 show ?thesis by (intro conjI)
qed

text \<open>
  Claim C5, as stated, fails in the gaps between the dots. In STRAIGHT mode at a
  dot period of 60, with only the dot paddle held from the initial state, the dot
  is asserted by the third tick. It is still asserted 59 ticks later and
  de-asserted 60 ticks later. 120 ticks later, where a gap of one dot period is
  over and the claim has the next dot asserted, the output is de-asserted; it
  still is 123 ticks later, and the next dot is asserted 124 ticks later: the gap
  is 64 ticks.
\<close>

theorem bug_gap_longer_than_dot:
  "claimed_bug_out (init_config\<lparr>cw_keyer_mode := KEYER_STRAIGHT, dot_delay := 60, dash_delay := 180\<rparr>) 120 \<and>
   keyer_out (run (init_config\<lparr>cw_keyer_mode := KEYER_STRAIGHT, dot_delay := 60, dash_delay := 180\<rparr>)
      \<lparr>kcwl = True, kcwr = False\<rparr> (3 + 59) init_keyer) \<and>
   \<not> keyer_out (run (init_config\<lparr>cw_keyer_mode := KEYER_STRAIGHT, dot_delay := 60, dash_delay := 180\<rparr>)
      \<lparr>kcwl = True, kcwr = False\<rparr> (3 + 60) init_keyer) \<and>
   \<not> keyer_out (run (init_config\<lparr>cw_keyer_mode := KEYER_STRAIGHT, dot_delay := 60, dash_delay := 180\<rparr>)
      \<lparr>kcwl = True, kcwr = False\<rparr> (3 + 120) init_keyer) \<and>
   \<not> keyer_out (run (init_config\<lparr>cw_keyer_mode := KEYER_STRAIGHT, dot_delay := 60, dash_delay := 180\<rparr>)
      \<lparr>kcwl = True, kcwr = False\<rparr> (3 + 123) init_keyer) \<and>
   keyer_out (run (init_config\<lparr>cw_keyer_mode := KEYER_STRAIGHT, dot_delay := 60, dash_delay := 180\<rparr>)
      \<lparr>kcwl = True, kcwr = False\<rparr> (3 + 124) init_keyer)"
proof -
  let ?p = "\<lparr>kcwl = True, kcwr = False\<rparr>"
  let ?a = "init_config\<lparr>cw_keyer_mode := KEYER_STRAIGHT, dot_delay := 60, dash_delay := 180\<rparr>"
  have a: "cw_keyer_mode ?a = KEYER_STRAIGHT" "kdot ?a ?p" "\<not> kdash ?a ?p"
    by (simp_all add: init_config_def mode_defs kdot_def kdash_def)
  have s: "key_state init_keyer = CHECK" "kdelay init_keyer = 0" "\<not> keyer_out init_keyer"
    by (simp_all add: init_keyer_def)
  have pa: "bug_period ?a = 124"
    by (simp add: bug_period_def init_config_def)
  note M = bug_match_run [OF a s]
  have m: "\<And>n. keyer_out (run ?a ?p (n + 2) init_keyer) = bug_out ?a (n mod 124)"
    using M by (simp add: bug_match_def pa)
  have c0: "claimed_bug_out ?a 120"
    by (simp add: claimed_bug_out_def init_config_def)
  have c1: "keyer_out (run ?a ?p (3 + 59) init_keyer)"
    using m [of 60] by (simp add: bug_out_def)
  have c2: "\<not> keyer_out (run ?a ?p (3 + 60) init_keyer)"
    using m [of 61] by (simp add: bug_out_def)
  have c3: "\<not> keyer_out (run ?a ?p (3 + 120) init_keyer)"
    using m [of 121] by (simp add: bug_out_def)
  have c4: "\<not> keyer_out (run ?a ?p (3 + 123) init_keyer)"
    using m [of 124] by (simp add: bug_out_def)
  have c5: "keyer_out (run ?a ?p (3 + 124) init_keyer)"
    using m [of 125] by (simp add: bug_out_def)
  from c0 c1 c2 c3 c4 c5 show ?thesis by (intro conjI)
qed

section \<open>Letter spacing\<close>

lemma unat_twice:
  assumes "unat (d::cint) < 2 ^ 31"
  shows "unat (2 * d) = 2 * unat d"
proof -
  have "unat (2::cint) * unat d < 2 ^ LENGTH(32)"
    using assms by simp
  then have "unat (2 * d) = unat (2::cint) * unat d"
    by (rule unat_mult_lem [THEN iffD1])
  then show ?thesis by simp
qed

lemma space_match_step:
  assumes m: "space_match c first k t" and k: "k < 3 * unat (dot_delay c) + 3"
    and first: "first = DOTDELAY \<or> first = DASHDELAY"
    and mode: "cw_keyer_mode c \<noteq> KEYER_STRAIGHT"
    and sp: "cw_keyer_spacing c \<noteq> 0"
    and small: "unat (dot_delay c) < 2 ^ 31"
    and rel: "\<not> kdot c p" "\<not> kdash c p"
  shows "space_match c first (Suc k) (step c p t)"
proof -
  define d where "d = unat (dot_delay c)"
  have dd: "of_nat d = dot_delay c"
    by (simp add: d_def)
  have ne: "\<And>j. j < d \<Longrightarrow> of_nat j \<noteq> dot_delay c"
    by (simp add: d_def count_neq)
  have two: "unat (2 * dot_delay c) = 2 * d"
    using small by (simp add: d_def unat_twice)
  then have dd2: "of_nat (2 * d) = 2 * dot_delay c"
    by (metis of_nat_unat ucast_id)
  have ne2: "\<And>j. j < 2 * d \<Longrightarrow> of_nat j \<noteq> 2 * dot_delay c"
    using two by (simp add: count_neq)
  note defs = space_match_def space_state_def space_kdelay_def held_state_def
    Let_def d_def [symmetric]
  consider (a) "k < d" | (b) "k = d" | (c) "k = d + 1" | (e) "d + 2 \<le> k" "k < 3 * d + 2"
    | (f) "k = 3 * d + 2"
    using k unfolding d_def by linarith
  then show ?thesis
  proof cases
    case a
    with m ne [of k] mode rel first show ?thesis
      by (auto simp add: defs step_def mode_defs)
  next
    case b
    with m dd mode rel first show ?thesis
      by (auto simp add: defs step_def mode_defs)
  next
    case c
    with m mode rel first sp show ?thesis
      by (auto simp add: defs step_def mode_defs clear_memory_def)
  next
    case e
    with m ne2 [of "k - (d + 2)"] mode rel show ?thesis
      by (simp add: defs step_def mode_defs Suc_diff_le)
  next
    case f
    then have "k - (d + 2) = 2 * d" by simp
    with f m dd2 mode rel show ?thesis
      by (simp add: defs step_def mode_defs)
  qed
qed

lemma space_match_run:
  assumes first: "key_state s = DOTDELAY \<or> key_state s = DASHDELAY"
    and s: "kdelay s = 0" "\<not> keyer_out s" "\<not> dot_memory s" "\<not> dash_memory s"
    and mode: "cw_keyer_mode c \<noteq> KEYER_STRAIGHT"
    and sp: "cw_keyer_spacing c \<noteq> 0"
    and small: "unat (dot_delay c) < 2 ^ 31"
    and rel: "\<not> kdot c p" "\<not> kdash c p"
  shows "k \<le> 3 * unat (dot_delay c) + 3 \<Longrightarrow> space_match c (key_state s) k (run c p k s)"
proof (induction k)
  case 0
  show ?case
    using s by (simp add: run_0 space_match_def space_state_def space_kdelay_def)
next
  case (Suc k)
  then have m: "space_match c (key_state s) k (run c p k s)" and lt: "k < 3 * unat (dot_delay c) + 3"
    by simp_all
  then have "key_state (run c p k s) \<noteq> EXITLOOP"
    using first by (auto simp add: space_match_def space_state_def held_state_def Let_def)
  then have "run c p (Suc k) s = step c p (run c p k s)"
    by (simp add: run_Suc)
  then show ?case
    using space_match_step [OF m lt first mode sp small rel] by simp
qed

text \<open>
  Claim C6, as the code has it. With letter spacing on, in a mode other than
  STRAIGHT, with a dot period \<open>d\<close> below \<open>2^31\<close>, both paddles released and no
  memory set, from the delay state entered when the last element de-asserted the
  output: the output stays de-asserted and EXITLOOP is reached after exactly
  \<open>3 * d + 3\<close> ticks, not before: \<open>d + 1\<close> passes of DOTDELAY or DASHDELAY (the
  counter runs from 0 to \<open>d\<close>), one of DOTHELD or DASHHELD, and \<open>2 * d + 1\<close> of
  LETTERSPACE (the counter runs from 0 to \<open>2 * d\<close>).
\<close>

theorem letter_space_window:
  assumes "key_state s = DOTDELAY \<or> key_state s = DASHDELAY"
    and "kdelay s = 0" and "\<not> keyer_out s" and "\<not> dot_memory s" and "\<not> dash_memory s"
    and "cw_keyer_mode c \<noteq> KEYER_STRAIGHT"
    and "cw_keyer_spacing c \<noteq> 0"
    and "unat (dot_delay c) < 2 ^ 31"
    and "\<not> kdot c p" and "\<not> kdash c p"
  shows "\<forall>k \<le> 3 * unat (dot_delay c) + 3.
           key_state (run c p k s) = space_state c (key_state s) k \<and>
           \<not> keyer_out (run c p k s) \<and>
           (key_state (run c p k s) = EXITLOOP \<longleftrightarrow> k = 3 * unat (dot_delay c) + 3)"
proof (intro allI impI)
  fix k assume k: "k \<le> 3 * unat (dot_delay c) + 3"
  have m: "space_match c (key_state s) k (run c p k s)"
    using assms k by (intro space_match_run)
  then show "key_state (run c p k s) = space_state c (key_state s) k \<and>
           \<not> keyer_out (run c p k s) \<and>
           (key_state (run c p k s) = EXITLOOP \<longleftrightarrow> k = 3 * unat (dot_delay c) + 3)"
    using assms(1) k
    by (auto simp add: space_match_def space_state_def held_state_def Let_def)
qed

theorem letter_space_window_witness:
  "key_state (run (init_config\<lparr>cw_keyer_spacing := 1, dot_delay := 60, dash_delay := 180\<rparr>)
      \<lparr>kcwl = False, kcwr = False\<rparr> 182 (init_keyer\<lparr>key_state := DASHDELAY\<rparr>)) = LETTERSPACE \<and>
   key_state (run (init_config\<lparr>cw_keyer_spacing := 1, dot_delay := 60, dash_delay := 180\<rparr>)
      \<lparr>kcwl = False, kcwr = False\<rparr> 183 (init_keyer\<lparr>key_state := DASHDELAY\<rparr>)) = EXITLOOP \<and>
   \<not> keyer_out (run (init_config\<lparr>cw_keyer_spacing := 1, dot_delay := 60, dash_delay := 180\<rparr>)
      \<lparr>kcwl = False, kcwr = False\<rparr> 183 (init_keyer\<lparr>key_state := DASHDELAY\<rparr>))"
proof -
  let ?c = "init_config\<lparr>cw_keyer_spacing := 1, dot_delay := 60, dash_delay := 180\<rparr>"
  let ?p = "\<lparr>kcwl = False, kcwr = False\<rparr>"
  let ?s = "init_keyer\<lparr>key_state := DASHDELAY\<rparr>"
  have h: "key_state ?s = DOTDELAY \<or> key_state ?s = DASHDELAY" "kdelay ?s = 0" "\<not> keyer_out ?s"
    "\<not> dot_memory ?s" "\<not> dash_memory ?s" "cw_keyer_mode ?c \<noteq> KEYER_STRAIGHT"
    "cw_keyer_spacing ?c \<noteq> 0" "unat (dot_delay ?c) < 2 ^ 31" "\<not> kdot ?c ?p" "\<not> kdash ?c ?p"
    by (simp_all add: init_config_def init_keyer_def mode_defs kdot_def kdash_def)
  note W = letter_space_window [OF h]
  have "182 \<le> 3 * unat (dot_delay ?c) + 3" "183 \<le> 3 * unat (dot_delay ?c) + 3"
    by simp_all
  with W have "key_state (run ?c ?p 182 ?s) = space_state ?c (key_state ?s) 182"
    "key_state (run ?c ?p 183 ?s) = space_state ?c (key_state ?s) 183"
    "\<not> keyer_out (run ?c ?p 183 ?s)"
    by blast+
  then show ?thesis
    by (simp add: space_state_def)
qed

text \<open>
  Claim C6, as stated, fails: at speed 20 (a dot period of 60), 180 ticks after
  the output was de-asserted the keyer is still in LETTERSPACE; it reaches
  EXITLOOP after 183.
\<close>

theorem letter_space_not_three_dots:
  "key_state (run (init_config\<lparr>cw_keyer_spacing := 1, dot_delay := 60, dash_delay := 180\<rparr>)
      \<lparr>kcwl = False, kcwr = False\<rparr> (3 * 60) (init_keyer\<lparr>key_state := DOTDELAY\<rparr>)) = LETTERSPACE \<and>
   key_state (run (init_config\<lparr>cw_keyer_spacing := 1, dot_delay := 60, dash_delay := 180\<rparr>)
      \<lparr>kcwl = False, kcwr = False\<rparr> (3 * 60 + 3) (init_keyer\<lparr>key_state := DOTDELAY\<rparr>)) = EXITLOOP"
proof -
  let ?c = "init_config\<lparr>cw_keyer_spacing := 1, dot_delay := 60, dash_delay := 180\<rparr>"
  let ?p = "\<lparr>kcwl = False, kcwr = False\<rparr>"
  let ?s = "init_keyer\<lparr>key_state := DOTDELAY\<rparr>"
  have h: "key_state ?s = DOTDELAY \<or> key_state ?s = DASHDELAY" "kdelay ?s = 0" "\<not> keyer_out ?s"
    "\<not> dot_memory ?s" "\<not> dash_memory ?s" "cw_keyer_mode ?c \<noteq> KEYER_STRAIGHT"
    "cw_keyer_spacing ?c \<noteq> 0" "unat (dot_delay ?c) < 2 ^ 31" "\<not> kdot ?c ?p" "\<not> kdash ?c ?p"
    by (simp_all add: init_config_def init_keyer_def mode_defs kdot_def kdash_def)
  have "space_match ?c (key_state ?s) (3 * 60) (run ?c ?p (3 * 60) ?s)"
    by (rule space_match_run [OF h]) (simp add: init_config_def)
  moreover have "space_match ?c (key_state ?s) (3 * 60 + 3) (run ?c ?p (3 * 60 + 3) ?s)"
    by (rule space_match_run [OF h]) (simp add: init_config_def)
  ultimately show ?thesis
    by (simp add: space_match_def space_state_def init_config_def init_keyer_def)
qed

section \<open>The tick counter at a change of state\<close>

lemma counting_step: "counting s \<Longrightarrow> counting (step c p s)"
  by (cases "key_state s")
     (auto simp add: counting_def step_def set_keyer_out_def clear_memory_def Let_def)

lemma counting_event: "counting s \<Longrightarrow> counting (thread_event c s e)"
  by (cases e) (auto simp add: counting_step, simp add: counting_def)

lemma counting_thread: "counting s \<Longrightarrow> counting (keyer_thread c es s)"
  unfolding keyer_thread_def
  by (induction es arbitrary: s) (simp_all add: counting_event)

lemma step_change_resets:
  "counting s \<Longrightarrow> key_state (step c p s) \<noteq> key_state s \<Longrightarrow> kdelay (step c p s) = 0"
  by (cases "key_state s")
     (auto simp add: counting_def step_def set_keyer_out_def clear_memory_def Let_def
        split: if_splits)

text \<open>
  Claim C7. In every state that the keyer thread reaches from the initial one, by
  any ticks and wake-ups, whatever happens next: if it changes \<^verbatim>\<open>key_state\<close>, then
  \<^verbatim>\<open>kdelay\<close> is 0 in the state entered.
\<close>

theorem kdelay_zero_at_transition:
  "key_state (thread_event c (keyer_thread c es init_keyer) e)
      \<noteq> key_state (keyer_thread c es init_keyer)
   \<longrightarrow> kdelay (thread_event c (keyer_thread c es init_keyer) e) = 0"
proof -
  have "counting init_keyer"
    by (simp add: counting_def init_keyer_def)
  then have i: "counting (keyer_thread c es init_keyer)"
    by (rule counting_thread)
  show ?thesis
  proof (cases e)
    case (Tick p)
    then show ?thesis
      using step_change_resets [OF i, of c p] by simp
  next
    case Wake
    then show ?thesis
      using i by (auto simp add: counting_def)
  qed
qed

theorem kdelay_zero_at_transition_witness:
  "key_state (keyer_thread (init_config\<lparr>dot_delay := 2, dash_delay := 6\<rparr>)
       [Wake, Tick \<lparr>kcwl = True, kcwr = False\<rparr>, Tick \<lparr>kcwl = True, kcwr = False\<rparr>,
        Tick \<lparr>kcwl = True, kcwr = False\<rparr>, Tick \<lparr>kcwl = True, kcwr = False\<rparr>] init_keyer) = SENDDOT \<and>
   kdelay (keyer_thread (init_config\<lparr>dot_delay := 2, dash_delay := 6\<rparr>)
       [Wake, Tick \<lparr>kcwl = True, kcwr = False\<rparr>, Tick \<lparr>kcwl = True, kcwr = False\<rparr>,
        Tick \<lparr>kcwl = True, kcwr = False\<rparr>, Tick \<lparr>kcwl = True, kcwr = False\<rparr>] init_keyer) = 2 \<and>
   key_state (thread_event (init_config\<lparr>dot_delay := 2, dash_delay := 6\<rparr>)
     (keyer_thread (init_config\<lparr>dot_delay := 2, dash_delay := 6\<rparr>)
       [Wake, Tick \<lparr>kcwl = True, kcwr = False\<rparr>, Tick \<lparr>kcwl = True, kcwr = False\<rparr>,
        Tick \<lparr>kcwl = True, kcwr = False\<rparr>, Tick \<lparr>kcwl = True, kcwr = False\<rparr>] init_keyer)
     (Tick \<lparr>kcwl = True, kcwr = False\<rparr>)) = DOTDELAY \<and>
   kdelay (thread_event (init_config\<lparr>dot_delay := 2, dash_delay := 6\<rparr>)
     (keyer_thread (init_config\<lparr>dot_delay := 2, dash_delay := 6\<rparr>)
       [Wake, Tick \<lparr>kcwl = True, kcwr = False\<rparr>, Tick \<lparr>kcwl = True, kcwr = False\<rparr>,
        Tick \<lparr>kcwl = True, kcwr = False\<rparr>, Tick \<lparr>kcwl = True, kcwr = False\<rparr>] init_keyer)
     (Tick \<lparr>kcwl = True, kcwr = False\<rparr>)) = 0"
proof -
  let ?c = "init_config\<lparr>dot_delay := 2, dash_delay := 6\<rparr>"
  let ?p = "\<lparr>kcwl = True, kcwr = False\<rparr>"
  let ?es = "[Wake, Tick ?p, Tick ?p, Tick ?p, Tick ?p]"
  have s: "keyer_thread ?c ?es init_keyer = init_keyer\<lparr>key_state := SENDDOT, kdelay := 2,
      keyer_out := True, gpio_out := True, tone_out := 800\<rparr>"
    by (simp add: keyer_thread_def step_def init_config_def init_keyer_def mode_defs kdot_def
        kdash_def set_keyer_out_def clear_memory_def)
  have n: "key_state (thread_event ?c (keyer_thread ?c ?es init_keyer) (Tick ?p)) = DOTDELAY"
    unfolding s by (simp add: step_def init_config_def init_keyer_def mode_defs kdot_def
        kdash_def set_keyer_out_def)
  have "key_state (thread_event ?c (keyer_thread ?c ?es init_keyer) (Tick ?p))
      \<noteq> key_state (keyer_thread ?c ?es init_keyer)"
    unfolding n by (simp add: s)
  with kdelay_zero_at_transition [of ?c ?es "Tick ?p"]
  have "kdelay (thread_event ?c (keyer_thread ?c ?es init_keyer) (Tick ?p)) = 0"
    by blast
  with n s show ?thesis
    by simp
qed

section \<open>Malformed options and the key line at exit\<close>

lemmas main_defs = main_def atoi_def strtol_def LONG_MAX_def LONG_MIN_def isspace_def
  isdigit_def char_at_def set_option_def
  keyer_update_def c_div_def signed_divide_int_def init_config_def init_keyer_def Let_def

text \<open>
  Claim C8, as stated, fails: with every call of \<^verbatim>\<open>main\<close> succeeding, \<^verbatim>\<open>-s 100\<close>
  (a speed out of the range 1 to 60) starts the keyer thread with a dot period of
  12, and \<^verbatim>\<open>-s abc\<close> (read as 0) ends in the division by zero of \<^verbatim>\<open>keyer_update\<close>;
  neither prints the usage.
\<close>

theorem bad_speed_not_rejected:
  "fst (main \<lparr>freopen_ok = True, gpioInitialise_ret = 0, wiringPiSetup_ret = 0,
             sem_init_ret = 0, pthread_create_ret = 0\<rparr> [''-s'', ''100''])
     = Keying (init_config\<lparr>cw_keyer_speed := 100, dot_delay := 12, dash_delay := 36\<rparr>) \<and>
   fst (main \<lparr>freopen_ok = True, gpioInitialise_ret = 0, wiringPiSetup_ret = 0,
             sem_init_ret = 0, pthread_create_ret = 0\<rparr> [''-s'', ''abc'']) = Trap_div"
  by (simp add: main_defs)

text \<open>
  The loop gives \<open>Usage\<close> exactly when it meets an unknown letter at some pair.
\<close>

lemma unknown_at_Nil: "\<not> unknown_at [] k"
  by (simp add: unknown_at_def)

lemma unknown_at_single: "unknown_at [a] k \<longleftrightarrow> k = 0 \<and> is_option a \<and> \<not> known_letter a"
  by (cases k) (auto simp add: unknown_at_def)

lemma unknown_at_0: "unknown_at (a # rest) 0 \<longleftrightarrow> is_option a \<and> \<not> known_letter a"
  by (simp add: unknown_at_def)

lemma unknown_at_Suc:
  "unknown_at (a # v # rest) (Suc k) \<longleftrightarrow> is_option a \<and> known_letter a \<and> unknown_at rest k"
proof -
  have "(\<forall>j<Suc k. is_option ((a # v # rest) ! (2 * j)) \<and> known_letter ((a # v # rest) ! (2 * j)))
      \<longleftrightarrow> is_option a \<and> known_letter a \<and>
        (\<forall>j<k. is_option (rest ! (2 * j)) \<and> known_letter (rest ! (2 * j)))"
    by (auto simp add: less_Suc_eq_0_disj)
  then show ?thesis
    unfolding unknown_at_def by auto
qed

lemma parse_args_Usage:
  "parse_args c argv = Usage \<longleftrightarrow> (\<exists>k. unknown_at argv k)"
proof (induction c argv rule: parse_args.induct)
  case (1 c)
  show ?case by (simp add: unknown_at_Nil)
next
  case (2 c a)
  show ?case by (simp add: unknown_at_single is_option_def known_letter_def)
next
  case (3 c a v rest)
  have ex: "(\<exists>k. unknown_at (a # v # rest) k)
      \<longleftrightarrow> unknown_at (a # v # rest) 0 \<or> (\<exists>k. unknown_at (a # v # rest) (Suc k))"
    by (metis not0_implies_Suc)
  show ?case
  proof (cases "is_option a \<and> known_letter a")
    case True
    then have "parse_args c (a # v # rest) = parse_args (set_option (char_at a 1) (atoi v) c) rest"
      by (simp add: is_option_def known_letter_def)
    with True 3 show ?thesis
      by (simp add: ex unknown_at_0 unknown_at_Suc is_option_def known_letter_def)
  next
    case False
    then show ?thesis
      by (auto simp add: ex unknown_at_0 unknown_at_Suc is_option_def known_letter_def)
  qed
qed

text \<open>
  Claim C8, as the code has it. \<^verbatim>\<open>main\<close> prints the usage and exits with status 1
  exactly when the option loop meets an option with a letter other than c, f, m,
  s and w (an argument \<^verbatim>\<open>-\<close> alone among them), after options with known letters
  only, each with its value: not for an empty list, not for a first argument that
  is no option, not for a known option with no value after it. The value of a
  known option is not checked: it is stored as \<^verbatim>\<open>atoi\<close> returns it and the loop
  goes on.
\<close>

theorem usage_only_for_unknown_option:
  "(fst (main e argv) = Exit_usage \<longleftrightarrow>
      (\<exists>k. 2 * k < length argv \<and>
           (\<forall>j<k. is_option (argv ! (2 * j)) \<and> known_letter (argv ! (2 * j))) \<and>
           is_option (argv ! (2 * k)) \<and> \<not> known_letter (argv ! (2 * k)))) \<and>
   (is_option a \<and> known_letter a \<longrightarrow>
      parse_args c (a # v # rest) = parse_args (set_option (char_at a 1) (atoi v) c) rest) \<and>
   (is_option a \<and> known_letter a \<longrightarrow>
      parse_args c [a, v] = Parsed (set_option (char_at a 1) (atoi v) c) [])"
proof (intro conjI impI)
  have "fst (main e argv) = Exit_usage \<longleftrightarrow> parse_args init_config argv = Usage"
    by (simp add: main_def Let_def split: parsed.splits option.splits)
  then show "fst (main e argv) = Exit_usage \<longleftrightarrow>
      (\<exists>k. 2 * k < length argv \<and>
           (\<forall>j<k. is_option (argv ! (2 * j)) \<and> known_letter (argv ! (2 * j))) \<and>
           is_option (argv ! (2 * k)) \<and> \<not> known_letter (argv ! (2 * k)))"
    by (simp only: parse_args_Usage unknown_at_def)
next
  assume "is_option a \<and> known_letter a"
  then show "parse_args c (a # v # rest) = parse_args (set_option (char_at a 1) (atoi v) c) rest"
    "parse_args c [a, v] = Parsed (set_option (char_at a 1) (atoi v) c) []"
    by (simp_all add: is_option_def known_letter_def)
qed

theorem usage_only_for_unknown_option_witness:
  "fst (main \<lparr>freopen_ok = True, gpioInitialise_ret = 0, wiringPiSetup_ret = 0,
             sem_init_ret = 0, pthread_create_ret = 0\<rparr> [''-s'', ''100'', ''-x'', ''1'']) = Exit_usage \<and>
   fst (main \<lparr>freopen_ok = True, gpioInitialise_ret = 0, wiringPiSetup_ret = 0,
             sem_init_ret = 0, pthread_create_ret = 0\<rparr> [''-s'', ''abc'']) \<noteq> Exit_usage \<and>
   fst (main \<lparr>freopen_ok = True, gpioInitialise_ret = 0, wiringPiSetup_ret = 0,
             sem_init_ret = 0, pthread_create_ret = 0\<rparr> [''-s'']) \<noteq> Exit_usage \<and>
   fst (main \<lparr>freopen_ok = True, gpioInitialise_ret = 0, wiringPiSetup_ret = 0,
             sem_init_ret = 0, pthread_create_ret = 0\<rparr> [''keys.txt'', ''-x'']) \<noteq> Exit_usage \<and>
   parse_args init_config [''-w'', ''abc''] = Parsed (init_config\<lparr>cw_keyer_weight := 0\<rparr>) []"
proof -
  let ?e = "\<lparr>freopen_ok = True, gpioInitialise_ret = 0, wiringPiSetup_ret = 0,
             sem_init_ret = 0, pthread_create_ret = 0\<rparr>"
  note defs = is_option_def known_letter_def char_at_def
  have o: "is_option ''-s''" "known_letter ''-s''" "is_option ''-x''" "\<not> known_letter ''-x''"
    "\<not> is_option ''100''" "\<not> is_option ''abc''" "\<not> is_option ''keys.txt''"
    "is_option ''-w''" "known_letter ''-w''"
    by (simp_all add: defs)
  have lt: "\<And>j::nat. j < 1 \<longleftrightarrow> j = 0" "\<And>k::nat. 2 * k < Suc (Suc 0) \<longleftrightarrow> k = 0"
    "\<And>k::nat. 2 * k < Suc 0 \<longleftrightarrow> k = 0"
    by auto
  have "2 * 1 < length [''-s'', ''100'', ''-x'', ''1''] \<and>
      (\<forall>j<1. is_option ([''-s'', ''100'', ''-x'', ''1''] ! (2 * j)) \<and>
             known_letter ([''-s'', ''100'', ''-x'', ''1''] ! (2 * j))) \<and>
      is_option ([''-s'', ''100'', ''-x'', ''1''] ! (2 * 1)) \<and>
      \<not> known_letter ([''-s'', ''100'', ''-x'', ''1''] ! (2 * 1))"
    using o by (simp add: lt)
  then have "\<exists>k. 2 * k < length [''-s'', ''100'', ''-x'', ''1''] \<and>
      (\<forall>j<k. is_option ([''-s'', ''100'', ''-x'', ''1''] ! (2 * j)) \<and>
             known_letter ([''-s'', ''100'', ''-x'', ''1''] ! (2 * j))) \<and>
      is_option ([''-s'', ''100'', ''-x'', ''1''] ! (2 * k)) \<and>
      \<not> known_letter ([''-s'', ''100'', ''-x'', ''1''] ! (2 * k))"
    by (rule exI)
  with usage_only_for_unknown_option [where e = ?e and argv = "[''-s'', ''100'', ''-x'', ''1'']"]
  have c1: "fst (main ?e [''-s'', ''100'', ''-x'', ''1'']) = Exit_usage"
    by blast
  have n2: "\<not> (\<exists>k. 2 * k < length [''-s'', ''abc''] \<and>
      (\<forall>j<k. is_option ([''-s'', ''abc''] ! (2 * j)) \<and> known_letter ([''-s'', ''abc''] ! (2 * j))) \<and>
      is_option ([''-s'', ''abc''] ! (2 * k)) \<and> \<not> known_letter ([''-s'', ''abc''] ! (2 * k)))"
    using o by (auto simp add: lt)
  with usage_only_for_unknown_option [where e = ?e and argv = "[''-s'', ''abc'']"]
  have c2: "fst (main ?e [''-s'', ''abc'']) \<noteq> Exit_usage"
    by blast
  have n3: "\<not> (\<exists>k. 2 * k < length [''-s''] \<and>
      (\<forall>j<k. is_option ([''-s''] ! (2 * j)) \<and> known_letter ([''-s''] ! (2 * j))) \<and>
      is_option ([''-s''] ! (2 * k)) \<and> \<not> known_letter ([''-s''] ! (2 * k)))"
    using o by (auto simp add: lt)
  with usage_only_for_unknown_option [where e = ?e and argv = "[''-s'']"]
  have c3: "fst (main ?e [''-s'']) \<noteq> Exit_usage"
    by blast
  have n4: "\<not> (\<exists>k. 2 * k < length [''keys.txt'', ''-x''] \<and>
      (\<forall>j<k. is_option ([''keys.txt'', ''-x''] ! (2 * j)) \<and> known_letter ([''keys.txt'', ''-x''] ! (2 * j))) \<and>
      is_option ([''keys.txt'', ''-x''] ! (2 * k)) \<and> \<not> known_letter ([''keys.txt'', ''-x''] ! (2 * k)))"
    using o by (auto simp add: lt)
  with usage_only_for_unknown_option [where e = ?e and argv = "[''keys.txt'', ''-x'']"]
  have c4: "fst (main ?e [''keys.txt'', ''-x'']) \<noteq> Exit_usage"
    by blast
  from usage_only_for_unknown_option [where a = "''-w''" and v = "''abc''" and c = init_config] o
  have c5: "parse_args init_config [''-w'', ''abc''] = Parsed (init_config\<lparr>cw_keyer_weight := 0\<rparr>) []"
    by (simp add: set_option_def atoi_def strtol_def LONG_MAX_def isspace_def isdigit_def char_at_def)
  from c1 c2 c3 c4 c5 show ?thesis by (intro conjI)
qed









end
